theory Spec2Isabelle
  imports Main "HOL-Library.Word"
begin

section \<open>Python strings and exceptions\<close>

text \<open>
  A Python \<open>str\<close> is a sequence of Unicode code points, so a string of the program is a
  list of code points (natural numbers), not a list of bytes. \<open>py\<close> turns an ASCII
  literal of the source into such a string.
\<close>

type_synonym pystr = "nat list"

definition py :: "string \<Rightarrow> pystr" where
  "py s = map of_char s"

text \<open>
  An exception that is an instance of \<open>Exception\<close>, which is what every
  \<open>except Exception\<close> of the source catches; it is represented by its text \<open>str(e)\<close>.
  \<open>KeyboardInterrupt\<close>, \<open>SystemExit\<close> and the limits of the interpreter (recursion depth,
  memory, the digit limit of integer conversion) are outside the model.
\<close>

datatype pyexc = PyExc (exc_str: pystr)

text \<open>\<open>sub in s\<close> on strings: \<open>sub\<close> occurs in \<open>s\<close> as a contiguous piece.\<close>

fun contains :: "pystr \<Rightarrow> pystr \<Rightarrow> bool" where
  "contains sub [] = (sub = [])"
| "contains sub (c # cs) = (take (length sub) (c # cs) = sub \<or> contains sub cs)"

section \<open>The json module as the program uses it\<close>

text \<open>
  \<open>format_text_response\<close> calls \<open>json.loads(text)\<close> and
  \<open>json.dumps(parsed, indent=2, ensure_ascii=False)\<close>. Both are modelled after the
  decoder and encoder of the standard library (\<open>json/decoder.py\<close>, \<open>json/scanner.py\<close>,
  \<open>json/encoder.py\<close> and their C counterparts). Every failure of the decoder is a
  \<open>JSONDecodeError\<close>, so the decoder returns an option.

  A Python \<open>float\<close> is an IEEE-754 binary64 value, kept as its 64 bits. The two
  conversions between floats and decimal text, \<open>float(numstr)\<close> and \<open>float.__repr__\<close>,
  are parameters of the model.
\<close>

type_synonym pyfloat = "64 word"

record floatops =
  float_of_str :: "pystr \<Rightarrow> pyfloat"
  float_repr :: "pyfloat \<Rightarrow> pystr"

definition float_inf :: pyfloat where
  "float_inf = 0x7FF0000000000000"

definition float_neg_inf :: pyfloat where
  "float_neg_inf = 0xFFF0000000000000"

definition float_nan :: pyfloat where
  "float_nan = 0x7FF8000000000000"

definition float_isnan :: "pyfloat \<Rightarrow> bool" where
  "float_isnan x = (0x7FF0000000000000 < (and x 0x7FFFFFFFFFFFFFFF))"

datatype json =
    JNull
  | JBool bool
  | JInt int
  | JFloat pyfloat
  | JStr pystr
  | JArr "json list"
  | JObj "(pystr \<times> json) list"

subsection \<open>Decoder\<close>

definition is_ws :: "nat \<Rightarrow> bool" where
  "is_ws c = (c = 32 \<or> c = 9 \<or> c = 10 \<or> c = 13)"

definition skip_ws :: "pystr \<Rightarrow> pystr" where
  "skip_ws s = dropWhile is_ws s"

definition is_digit :: "nat \<Rightarrow> bool" where
  "is_digit c = (48 \<le> c \<and> c \<le> 57)"

definition hexval :: "nat \<Rightarrow> nat option" where
  "hexval c =
     (if 48 \<le> c \<and> c \<le> 57 then Some (c - 48)
      else if 97 \<le> c \<and> c \<le> 102 then Some (c - 87)
      else if 65 \<le> c \<and> c \<le> 70 then Some (c - 55)
      else None)"

text \<open>The four hexadecimal digits of a \<open>\uXXXX\<close> escape.\<close>

fun hex4 :: "pystr \<Rightarrow> nat option" where
  "hex4 (a # b # c # d # r) =
     (case (hexval a, hexval b, hexval c, hexval d) of
        (Some x, Some y, Some z, Some w) \<Rightarrow> Some (((x * 16 + y) * 16 + z) * 16 + w)
      | _ \<Rightarrow> None)"
| "hex4 _ = None"

definition is_high_surrogate :: "nat \<Rightarrow> bool" where
  "is_high_surrogate u = (55296 \<le> u \<and> u \<le> 56319)"

definition is_low_surrogate :: "nat \<Rightarrow> bool" where
  "is_low_surrogate u = (56320 \<le> u \<and> u \<le> 57343)"

definition join_surrogates :: "nat \<Rightarrow> nat \<Rightarrow> nat" where
  "join_surrogates hi lo = 65536 + (hi - 55296) * 1024 + (lo - 56320)"

definition unescape :: "nat \<Rightarrow> nat option" where
  "unescape e =
     (if e = 34 then Some 34
      else if e = 92 then Some 92
      else if e = 47 then Some 47
      else if e = 98 then Some 8
      else if e = 102 then Some 12
      else if e = 110 then Some 10
      else if e = 114 then Some 13
      else if e = 116 then Some 9
      else None)"

definition cons_chr :: "nat \<Rightarrow> (pystr \<times> pystr) option \<Rightarrow> (pystr \<times> pystr) option" where
  "cons_chr c r = (case r of None \<Rightarrow> None | Some (s, rest) \<Rightarrow> Some (c # s, rest))"

text \<open>
  \<open>scanstring\<close> in strict mode, started after the opening quote: the decoded string and
  the input after the closing quote. A raw control character, an unknown escape, a
  malformed \<open>\uXXXX\<close> and a missing closing quote are errors; a high surrogate escape
  followed by a low surrogate escape is one code point.
\<close>

fun scanstring :: "pystr \<Rightarrow> (pystr \<times> pystr) option" where
  "scanstring [] = None"
| "scanstring (c # cs) =
     (if c = 34 then Some ([], cs)
      else if c = 92 then
        (case cs of
           [] \<Rightarrow> None
         | e # es \<Rightarrow>
             if e = 117 then
               (case hex4 es of
                  None \<Rightarrow> None
                | Some u \<Rightarrow>
                    if is_high_surrogate u \<and> take 2 (drop 4 es) = [92, 117] then
                      (case hex4 (drop 6 es) of
                         None \<Rightarrow> None
                       | Some u2 \<Rightarrow>
                           if is_low_surrogate u2
                           then cons_chr (join_surrogates u u2) (scanstring (drop 10 es))
                           else cons_chr u (scanstring (drop 4 es)))
                    else cons_chr u (scanstring (drop 4 es)))
             else
               (case unescape e of
                  None \<Rightarrow> None
                | Some ch \<Rightarrow> cons_chr ch (scanstring es)))
      else if c \<le> 31 then None
      else cons_chr c (scanstring cs))"

text \<open>\<open>int(numstr)\<close> on decimal digits.\<close>

definition digits_val :: "pystr \<Rightarrow> nat" where
  "digits_val ds = foldl (\<lambda>n c. 10 * n + (c - 48)) 0 ds"

text \<open>
  The number scanner: an optional minus sign, \<open>0\<close> or a digit sequence without leading zero,
  an optional fraction (a dot and at least one digit), an optional exponent (\<open>e\<close> or
  \<open>E\<close>, an optional sign, at least one digit; without a digit the scanner backtracks to
  before the \<open>e\<close>). With a fraction or an exponent the text is converted by \<open>float\<close>,
  otherwise by \<open>int\<close>.
\<close>

definition match_frac :: "pystr \<Rightarrow> pystr \<times> pystr" where
  "match_frac s =
     (case s of
        d # f # r \<Rightarrow>
          if d = 46 \<and> is_digit f then (d # f # takeWhile is_digit r, dropWhile is_digit r)
          else ([], s)
      | _ \<Rightarrow> ([], s))"

definition match_exp :: "pystr \<Rightarrow> pystr \<times> pystr" where
  "match_exp s =
     (case s of
        [] \<Rightarrow> ([], s)
      | e # r \<Rightarrow>
          if e = 101 \<or> e = 69 then
            (let (sg, r1) =
               (case r of
                  c # r' \<Rightarrow> if c = 45 \<or> c = 43 then ([c], r') else ([], r)
                | [] \<Rightarrow> ([], r))
             in if takeWhile is_digit r1 = [] then ([], s)
                else (e # sg @ takeWhile is_digit r1, dropWhile is_digit r1))
          else ([], s))"

definition match_int :: "pystr \<Rightarrow> (pystr \<times> pystr) option" where
  "match_int s =
     (case s of
        [] \<Rightarrow> None
      | d # r \<Rightarrow>
          if 49 \<le> d \<and> d \<le> 57 then Some (d # takeWhile is_digit r, dropWhile is_digit r)
          else if d = 48 then Some ([d], r)
          else None)"

definition match_number :: "floatops \<Rightarrow> pystr \<Rightarrow> (json \<times> pystr) option" where
  "match_number fl s =
     (let (sgn, s1) = (case s of c # r \<Rightarrow> if c = 45 then ([c], r) else ([], s) | [] \<Rightarrow> ([], s))
      in case match_int s1 of
           None \<Rightarrow> None
         | Some (ip, s2) \<Rightarrow>
             (let (frac, s3) = match_frac s2;
                  (ex, s4) = match_exp s3
              in if frac \<noteq> [] \<or> ex \<noteq> []
                 then Some (JFloat (float_of_str fl (sgn @ ip @ frac @ ex)), s4)
                 else Some (JInt (if sgn = [] then int (digits_val ip)
                                  else - int (digits_val ip)), s4)))"

text \<open>\<open>PyDict_SetItem\<close>: a repeated key keeps its first position and takes the new value.\<close>

fun dict_set :: "(pystr \<times> json) list \<Rightarrow> pystr \<Rightarrow> json \<Rightarrow> (pystr \<times> json) list" where
  "dict_set [] k v = [(k, v)]"
| "dict_set ((k', v') # kvs) k v =
     (if k' = k then (k, v) # kvs else (k', v') # dict_set kvs k v)"

text \<open>
  \<open>scan_once\<close> reads one JSON term from the start of the input; \<open>parse_array\<close> and
  \<open>parse_object\<close> are the loops of the array and the object parser, entered at
  the first item of a non-empty container with the items read so far. The test
  \<open>length r < length s\<close> on the input left by a term is there for the termination proof
  only; \<open>scan_once_parsed\<close> below shows that it always holds.
\<close>

function scan_once :: "floatops \<Rightarrow> pystr \<Rightarrow> (json \<times> pystr) option"
  and parse_array :: "floatops \<Rightarrow> json list \<Rightarrow> pystr \<Rightarrow> (json \<times> pystr) option"
  and parse_object :: "floatops \<Rightarrow> (pystr \<times> json) list \<Rightarrow> pystr \<Rightarrow> (json \<times> pystr) option"
where
  "scan_once fl [] = None"
| "scan_once fl (c # cs) =
     (if c = 34 then
        (case scanstring cs of None \<Rightarrow> None | Some (s, r) \<Rightarrow> Some (JStr s, r))
      else if c = 123 then
        (case skip_ws cs of
           [] \<Rightarrow> parse_object fl [] []
         | d # r \<Rightarrow> if d = 125 then Some (JObj [], r) else parse_object fl [] (d # r))
      else if c = 91 then
        (case skip_ws cs of
           [] \<Rightarrow> parse_array fl [] []
         | d # r \<Rightarrow> if d = 93 then Some (JArr [], r) else parse_array fl [] (d # r))
      else if c = 110 \<and> take 3 cs = py ''ull'' then Some (JNull, drop 3 cs)
      else if c = 116 \<and> take 3 cs = py ''rue'' then Some (JBool True, drop 3 cs)
      else if c = 102 \<and> take 4 cs = py ''alse'' then Some (JBool False, drop 4 cs)
      else if c = 78 \<and> take 2 cs = py ''aN'' then Some (JFloat float_nan, drop 2 cs)
      else if c = 73 \<and> take 7 cs = py ''nfinity'' then Some (JFloat float_inf, drop 7 cs)
      else if c = 45 \<and> take 8 cs = py ''Infinity'' then Some (JFloat float_neg_inf, drop 8 cs)
      else match_number fl (c # cs))"
| "parse_array fl acc s =
     (case scan_once fl s of
        None \<Rightarrow> None
      | Some (v, r) \<Rightarrow>
          if length r < length s then
            (case skip_ws r of
               [] \<Rightarrow> None
             | d # r2 \<Rightarrow>
                 if d = 93 then Some (JArr (acc @ [v]), r2)
                 else if d = 44 then parse_array fl (acc @ [v]) (skip_ws r2)
                 else None)
          else None)"
| "parse_object fl acc s =
     (case s of
        [] \<Rightarrow> None
      | q # s1 \<Rightarrow>
          if q \<noteq> 34 then None
          else
            (case scanstring s1 of
               None \<Rightarrow> None
             | Some (k, r) \<Rightarrow>
                 (case skip_ws r of
                    [] \<Rightarrow> None
                  | col # r1 \<Rightarrow>
                      if col \<noteq> 58 then None
                      else if length (skip_ws r1) < length s then
                        (case scan_once fl (skip_ws r1) of
                           None \<Rightarrow> None
                         | Some (v, r2) \<Rightarrow>
                             if length r2 < length (skip_ws r1) then
                               (case skip_ws r2 of
                                  [] \<Rightarrow> None
                                | d # r3 \<Rightarrow>
                                    if d = 125 then Some (JObj (dict_set acc k v), r3)
                                    else if d = 44
                                    then parse_object fl (dict_set acc k v) (skip_ws r3)
                                    else None)
                             else None)
                      else None)))"
  by pat_completeness auto
termination
proof -
  have le: "length (skip_ws s) \<le> length s" for s
    by (simp add: skip_ws_def length_dropWhile_le)
  have c1: "skip_ws s = d # r \<Longrightarrow> length r < length s" for s d r
    using le [of s] by simp
  have c2: "skip_ws s = d # r \<Longrightarrow> length (skip_ws r) < length s" for s d r
    using le [of s] le [of r] by simp
  show ?thesis
    by (relation "measure (\<lambda>x. case x of
            Inl (fl, s) \<Rightarrow> 2 * length s
          | Inr (Inl (fl, acc, s)) \<Rightarrow> 2 * length s + 1
          | Inr (Inr (fl, acc, s)) \<Rightarrow> 2 * length s + 1)")
       (auto dest: c1 c2)
qed

text \<open>
  \<open>json.loads\<close> on a string: a leading byte order mark is refused, whitespace around
  the single term is skipped, and anything left after it is the error "Extra data".
\<close>

definition json_loads :: "floatops \<Rightarrow> pystr \<Rightarrow> json option" where
  "json_loads fl s =
     (case s of
        [] \<Rightarrow> None
      | c # cs \<Rightarrow>
          if c = 65279 then None
          else
            (case scan_once fl (skip_ws s) of
               None \<Rightarrow> None
             | Some (v, r) \<Rightarrow> if skip_ws r = [] then Some v else None))"

subsection \<open>Encoder\<close>

text \<open>\<open>int.__repr__\<close>: the decimal digits, with a minus sign for a negative number.\<close>

fun str_nat :: "nat \<Rightarrow> pystr" where
  "str_nat n = (if n < 10 then [48 + n] else str_nat (n div 10) @ [48 + n mod 10])"

declare str_nat.simps [simp del]

definition str_int :: "int \<Rightarrow> pystr" where
  "str_int i = (if i < 0 then 45 # str_nat (nat (- i)) else str_nat (nat i))"

definition hexdig :: "nat \<Rightarrow> nat" where
  "hexdig n = (if n < 10 then 48 + n else 87 + n)"

text \<open>\<open>'{0:04x}'.format(n)\<close> for a code point below \<open>0x10000\<close>.\<close>

definition hex4_str :: "nat \<Rightarrow> pystr" where
  "hex4_str n =
     [hexdig (n div 4096 mod 16), hexdig (n div 256 mod 16),
      hexdig (n div 16 mod 16), hexdig (n mod 16)]"

text \<open>
  \<open>encode_basestring\<close>, the string encoder under \<open>ensure_ascii=False\<close>: the quote, the
  backslash and the control characters below \<open>0x20\<close> are escaped, every other code point
  is written as it is.
\<close>

definition escape_char :: "nat \<Rightarrow> pystr" where
  "escape_char c =
     (if c = 34 then [92, 34]
      else if c = 92 then [92, 92]
      else if c = 10 then [92, 110]
      else if c = 13 then [92, 114]
      else if c = 9 then [92, 116]
      else if c = 8 then [92, 98]
      else if c = 12 then [92, 102]
      else if c < 32 then [92, 117] @ hex4_str c
      else [c])"

definition encode_basestring :: "pystr \<Rightarrow> pystr" where
  "encode_basestring s = 34 # concat (map escape_char s) @ [34]"

definition floatstr :: "floatops \<Rightarrow> pyfloat \<Rightarrow> pystr" where
  "floatstr fl x =
     (if float_isnan x then py ''NaN''
      else if x = float_inf then py ''Infinity''
      else if x = float_neg_inf then py ''-Infinity''
      else float_repr fl x)"

definition newline_indent :: "nat \<Rightarrow> pystr" where
  "newline_indent lvl = 10 # replicate (2 * lvl) 32"

fun join_items :: "pystr \<Rightarrow> pystr list \<Rightarrow> pystr" where
  "join_items sep [] = []"
| "join_items sep [x] = x"
| "join_items sep (x # y # ys) = x @ sep @ join_items sep (y # ys)"

text \<open>
  The encoder with \<open>indent=2\<close>: an empty container is \<open>[]\<close> or \<open>{}\<close>; otherwise every
  item is on a line of its own, indented by two spaces per level, items are separated by a
  comma, and a key is separated from its value by a colon and a space.
\<close>

fun iterencode :: "floatops \<Rightarrow> nat \<Rightarrow> json \<Rightarrow> pystr" where
  "iterencode fl lvl JNull = py ''null''"
| "iterencode fl lvl (JBool b) = (if b then py ''true'' else py ''false'')"
| "iterencode fl lvl (JInt i) = str_int i"
| "iterencode fl lvl (JFloat x) = floatstr fl x"
| "iterencode fl lvl (JStr s) = encode_basestring s"
| "iterencode fl lvl (JArr xs) =
     (if xs = [] then py ''[]''
      else 91 # newline_indent (Suc lvl)
           @ join_items (44 # newline_indent (Suc lvl)) (map (iterencode fl (Suc lvl)) xs)
           @ newline_indent lvl @ [93])"
| "iterencode fl lvl (JObj kvs) =
     (if kvs = [] then py ''{}''
      else 123 # newline_indent (Suc lvl)
           @ join_items (44 # newline_indent (Suc lvl))
               (map (\<lambda>kv. encode_basestring (fst kv) @ py '': ''
                            @ iterencode fl (Suc lvl) (snd kv)) kvs)
           @ newline_indent lvl @ [125])"

definition json_dumps :: "floatops \<Rightarrow> json \<Rightarrow> pystr" where
  "json_dumps fl j = iterencode fl 0 j"

section \<open>Responses (\<open>server.py\<close>)\<close>

text \<open>
  The argument of \<open>format_text_response\<close> has type \<open>Any\<close>. A string is kept as it is;
  any other value is represented by the text that \<open>str()\<close> gives for it, which is all the
  function uses of it. The \<open>except json.JSONDecodeError\<close> of the function is the
  \<open>None\<close> of the decoder.
\<close>

datatype pyany = PyStr pystr | PyOther pystr

text \<open>\<open>types.TextContent(type="text", text=...)\<close>.\<close>

datatype content = TextContent (text_of: pystr)

definition format_text_response :: "floatops \<Rightarrow> pyany \<Rightarrow> content list" where
  "format_text_response fl v =
     (case v of
        PyStr s \<Rightarrow>
          (case json_loads fl s of
             Some parsed \<Rightarrow> [TextContent (json_dumps fl parsed)]
           | None \<Rightarrow> [TextContent s])
      | PyOther t \<Rightarrow> [TextContent t])"

definition format_error_response :: "floatops \<Rightarrow> pystr \<Rightarrow> content list" where
  "format_error_response fl error = format_text_response fl (PyStr (py ''Error: '' @ error))"

section \<open>Database tools (\<open>execute_db_tool\<close>)\<close>

text \<open>
  The global \<open>_tdconn\<close> is a \<open>TDConn\<close> object whose attribute \<open>conn\<close> is \<open>None\<close> or a
  connection object of the driver. The connection object is identified by a number and
  carries whether its session is still alive. The class \<open>TDConn\<close> is defined in the
  package \<open>tools\<close>, outside \<open>server.py\<close>, so the outcome of the constructor call
  \<open>td.TDConn()\<close> is a parameter: it raises, or it returns a new object.
\<close>

record tdconnection =
  conn_id :: nat
  alive :: bool

record TDConn =
  conn :: "tdconnection option"

text \<open>
  The test \<open>not _tdconn.conn\<close> is Python truthiness: \<open>None\<close> is false, and a connection
  object, which defines neither \<open>__bool__\<close> nor \<open>__len__\<close>, is true whatever the state of
  its session.
\<close>

definition truthy_conn :: "tdconnection option \<Rightarrow> bool" where
  "truthy_conn c = (c \<noteq> None)"

datatype db_event = Reinit | DbToolCall TDConn

record db_result =
  db_outcome :: "pyexc + content list"
  db_tdconn :: TDConn
  db_events :: "db_event list"

text \<open>
  \<open>execute_db_tool fl new_tdconn tool tdc\<close>: \<open>tdc\<close> is the global \<open>_tdconn\<close> before the
  call, \<open>tool\<close> the handler with its arguments (it raises or returns a value),
  \<open>new_tdconn\<close> the outcome of \<open>td.TDConn()\<close>. The result has the returned response (or
  the exception that leaves the function), the global after the call, and the calls made.
\<close>

definition execute_db_tool ::
  "floatops \<Rightarrow> (pyexc + TDConn) \<Rightarrow> (TDConn \<Rightarrow> pyexc + pyany) \<Rightarrow> TDConn \<Rightarrow> db_result" where
  "execute_db_tool fl new_tdconn tool tdc =
     (if \<not> truthy_conn (conn tdc) then
        (case new_tdconn of
           Inl e \<Rightarrow>
             \<lparr>db_outcome = Inr (format_error_response fl (exc_str e)),
              db_tdconn = tdc, db_events = [Reinit]\<rparr>
         | Inr tdc' \<Rightarrow>
             (case tool tdc' of
                Inr v \<Rightarrow>
                  \<lparr>db_outcome = Inr (format_text_response fl v),
                   db_tdconn = tdc', db_events = [Reinit, DbToolCall tdc']\<rparr>
              | Inl e \<Rightarrow>
                  \<lparr>db_outcome = Inr (format_error_response fl (exc_str e)),
                   db_tdconn = tdc', db_events = [Reinit, DbToolCall tdc']\<rparr>))
      else
        (case tool tdc of
           Inr v \<Rightarrow>
             \<lparr>db_outcome = Inr (format_text_response fl v),
              db_tdconn = tdc, db_events = [DbToolCall tdc]\<rparr>
         | Inl e \<Rightarrow>
             \<lparr>db_outcome = Inr (format_error_response fl (exc_str e)),
              db_tdconn = tdc, db_events = [DbToolCall tdc]\<rparr>))"

section \<open>Vector store tools (\<open>execute_vs_tool\<close>)\<close>

text \<open>
  The globals \<open>_evs\<close> and \<open>_enableEVS\<close>. \<open>_evs\<close> is bound only after a successful
  \<open>get_evs()\<close>; a session is identified by a number.
\<close>

record vs_state =
  evs :: "nat option"
  enableEVS :: bool

text \<open>\<open>str.strip()\<close> removes the white space of Unicode at both ends.\<close>

definition py_isspace :: "nat \<Rightarrow> bool" where
  "py_isspace c =
     ((9 \<le> c \<and> c \<le> 13) \<or> (28 \<le> c \<and> c \<le> 32) \<or> c = 133 \<or> c = 160 \<or> c = 5760
      \<or> (8192 \<le> c \<and> c \<le> 8202) \<or> c = 8232 \<or> c = 8233 \<or> c = 8239 \<or> c = 8287
      \<or> c = 12288)"

definition strip :: "pystr \<Rightarrow> pystr" where
  "strip s = rev (dropWhile py_isspace (rev (dropWhile py_isspace s)))"

text \<open>
  The module-level start-up code: \<open>vs_name\<close> is \<open>os.getenv("VS_NAME", "")\<close> and
  \<open>get_evs\<close> the outcome of \<open>td.evs.get_evs()\<close>, should it be called.
\<close>

definition startup_evs :: "pystr \<Rightarrow> (pyexc + nat) \<Rightarrow> vs_state" where
  "startup_evs vs_name get_evs =
     (if length (strip vs_name) > 0 then
        (case get_evs of
           Inr s \<Rightarrow> \<lparr>evs = Some s, enableEVS = True\<rparr>
         | Inl e \<Rightarrow> \<lparr>evs = None, enableEVS = False\<rparr>)
      else \<lparr>evs = None, enableEVS = False\<rparr>)"

datatype vs_event = VsToolCall nat nat | Refresh

record vs_result =
  vs_outcome :: "pyexc + content list"
  vs_after :: vs_state
  vs_events :: "vs_event list"

text \<open>
  A call \<open>tool(_evs, *args, **kwargs)\<close>: reading the unbound global \<open>_evs\<close> raises
  \<open>NameError\<close>. The vector store is an external service, so the outcome of the handler
  may differ between the first call and the retry: \<open>tool k s\<close> is the outcome of call
  number \<open>k\<close> of this dispatch on session \<open>s\<close>.
\<close>

definition call_vs_tool :: "(nat \<Rightarrow> nat \<Rightarrow> pyexc + pyany) \<Rightarrow> nat \<Rightarrow> nat option \<Rightarrow> pyexc + pyany" where
  "call_vs_tool tool k session =
     (case session of
        None \<Rightarrow> Inl (PyExc (py ''name '' @ [39] @ py ''_evs'' @ [39] @ py '' is not defined''))
      | Some s \<Rightarrow> tool k s)"

definition vs_tool_events :: "nat \<Rightarrow> nat option \<Rightarrow> vs_event list" where
  "vs_tool_events k session = (case session of None \<Rightarrow> [] | Some s \<Rightarrow> [VsToolCall k s])"

definition is_expiry :: "pyexc \<Rightarrow> bool" where
  "is_expiry e = (contains (py ''401'') (exc_str e) \<or> contains (py ''Session expired'') (exc_str e))"

text \<open>
  \<open>execute_vs_tool fl refresh_evs tool st\<close>: \<open>refresh_evs\<close> is the outcome of
  \<open>td.evs_connect.refresh_evs()\<close>, which is called in the exception handler, outside any
  \<open>try\<close>.
\<close>

definition execute_vs_tool ::
  "floatops \<Rightarrow> (pyexc + nat) \<Rightarrow> (nat \<Rightarrow> nat \<Rightarrow> pyexc + pyany) \<Rightarrow> vs_state \<Rightarrow> vs_result" where
  "execute_vs_tool fl refresh_evs tool st =
     (if enableEVS st then
        (case call_vs_tool tool 0 (evs st) of
           Inr v \<Rightarrow>
             \<lparr>vs_outcome = Inr (format_text_response fl v), vs_after = st,
              vs_events = vs_tool_events 0 (evs st)\<rparr>
         | Inl e \<Rightarrow>
             if is_expiry e then
               (case refresh_evs of
                  Inl re \<Rightarrow>
                    \<lparr>vs_outcome = Inl re, vs_after = st,
                     vs_events = vs_tool_events 0 (evs st) @ [Refresh]\<rparr>
                | Inr s' \<Rightarrow>
                    (case tool 1 s' of
                       Inr v \<Rightarrow>
                         \<lparr>vs_outcome = Inr (format_text_response fl v),
                          vs_after = st\<lparr>evs := Some s'\<rparr>,
                          vs_events = vs_tool_events 0 (evs st) @ [Refresh, VsToolCall 1 s']\<rparr>
                     | Inl retry_err \<Rightarrow>
                         \<lparr>vs_outcome = Inr (format_error_response fl
                            (py ''After refresh, still failed: '' @ exc_str retry_err)),
                          vs_after = st\<lparr>evs := Some s'\<rparr>,
                          vs_events = vs_tool_events 0 (evs st) @ [Refresh, VsToolCall 1 s']\<rparr>))
             else
               \<lparr>vs_outcome = Inr (format_error_response fl (exc_str e)), vs_after = st,
                vs_events = vs_tool_events 0 (evs st)\<rparr>)
      else
        \<lparr>vs_outcome = Inr (format_error_response fl
           (py ''Enterprise Vector Store is not available on this server.'')),
         vs_after = st, vs_events = []\<rparr>)"

text \<open>
  Dispatches through \<open>execute_vs_tool\<close> one after the other, each with its handler and
  with what a refresh would give at that moment. Of the two vector store tools of
  \<open>server.py\<close> only \<open>vector_store_similarity_search\<close> is dispatched this way.
\<close>

fun run_vs_tools ::
  "floatops \<Rightarrow> vs_state \<Rightarrow> ((pyexc + nat) \<times> (nat \<Rightarrow> nat \<Rightarrow> pyexc + pyany)) list \<Rightarrow> vs_result list" where
  "run_vs_tools fl st [] = []"
| "run_vs_tools fl st ((refresh_evs, tool) # calls) =
     execute_vs_tool fl refresh_evs tool st
       # run_vs_tools fl (vs_after (execute_vs_tool fl refresh_evs tool st)) calls"

section \<open>Start and shutdown (\<open>main\<close>, \<open>shutdown\<close>)\<close>

text \<open>
  The state of the process that \<open>main\<close> and \<open>shutdown\<close> touch: whether the file
  \<open>/tmp/.alive\<close> exists, the global \<open>shutdown_in_progress\<close>, and whether
  \<open>_tdconn.close()\<close> has returned.
\<close>

record process =
  alive_file :: bool
  shutdown_in_progress :: bool
  tdconn_closed :: bool

datatype serving = ServeSSE | ServeStreamableHTTP | ServeStdio

text \<open>
  \<open>main mcp_transport port p\<close>: \<open>mcp_transport\<close> is the local variable of that name
  (the environment variable, lower-cased), \<open>port\<close> the outcome of
  \<open>int(os.getenv("MCP_PORT"))\<close>, which raises on a missing or malformed value. The
  result is the state when the server starts to serve, and the transport it serves.
\<close>

definition main :: "pystr \<Rightarrow> (pyexc + int) \<Rightarrow> process \<Rightarrow> process \<times> (pyexc + serving)" where
  "main mcp_transport port p =
     (if mcp_transport = py ''sse'' then
        (case port of
           Inl e \<Rightarrow> (p, Inl e)
         | Inr n \<Rightarrow> (p\<lparr>alive_file := True\<rparr>, Inr ServeSSE))
      else if mcp_transport = py ''streamable-http'' then
        (case port of
           Inl e \<Rightarrow> (p, Inl e)
         | Inr n \<Rightarrow> (p, Inr ServeStreamableHTTP))
      else (p, Inr ServeStdio))"

text \<open>
  \<open>_tdconn.close()\<close> belongs to the class \<open>TDConn\<close>, so its outcome is a parameter: it
  returns, it raises, or it never returns (a hung teardown).
\<close>

datatype close_outcome = CloseReturns | CloseRaises pyexc | CloseHangs

text \<open>
  How a call of \<open>shutdown\<close> ends: \<open>os._exit(code)\<close>, an exception that leaves the
  coroutine, or no end at all.
\<close>

datatype shutdown_outcome = Exit nat | Propagates pyexc | NeverReturns

definition shutdown :: "nat option \<Rightarrow> close_outcome \<Rightarrow> process \<Rightarrow> process \<times> shutdown_outcome" where
  "shutdown sig close p =
     (let p1 = (if alive_file p then p\<lparr>alive_file := False\<rparr> else p) in
      if shutdown_in_progress p1 then (p1, Exit 1)
      else
        (case close of
           CloseReturns \<Rightarrow>
             (p1\<lparr>tdconn_closed := True, shutdown_in_progress := True\<rparr>,
              Exit (case sig of None \<Rightarrow> 0 | Some n \<Rightarrow> 128 + n))
         | CloseRaises e \<Rightarrow> (p1, Propagates e)
         | CloseHangs \<Rightarrow> (p1, NeverReturns)))"

section \<open>The answer-only search tool (\<open>evs_tools.py\<close>)\<close>

text \<open>
  The values that flow through \<open>handle_evs_similarity_search_getAnswerOnly\<close>: the
  built-in data of Python and objects of library classes. A dictionary has string keys
  (a JSON object, a record of a data frame). An object is known by the name of its class
  and by its attributes; an attribute is a plain value or a callable, the latter
  represented by the outcome of calling it the way the source does.
\<close>

datatype pyval =
    PNone
  | PBool bool
  | PInt int
  | PFloat pyfloat
  | PStr pystr
  | PList "pyval list"
  | PTuple "pyval list"
  | PDict "(pystr \<times> pyval) list"
  | PObj pystr pystr "(pystr \<times> pyattr) list"
and pyattr =
    Attr pyval
  | Method "pyexc + pyval"

fun pyval_of_json :: "json \<Rightarrow> pyval" where
  "pyval_of_json JNull = PNone"
| "pyval_of_json (JBool b) = PBool b"
| "pyval_of_json (JInt i) = PInt i"
| "pyval_of_json (JFloat x) = PFloat x"
| "pyval_of_json (JStr s) = PStr s"
| "pyval_of_json (JArr xs) = PList (map pyval_of_json xs)"
| "pyval_of_json (JObj kvs) = PDict (map (\<lambda>kv. (fst kv, pyval_of_json (snd kv))) kvs)"

text \<open>
  \<open>type(obj).__name__\<close>, and the text of \<open>type(obj)\<close>, which names the module of a
  library class (the first field of \<open>PObj\<close>) before its name (the second).
\<close>

fun type_name :: "pyval \<Rightarrow> pystr" where
  "type_name PNone = py ''NoneType''"
| "type_name (PBool b) = py ''bool''"
| "type_name (PInt i) = py ''int''"
| "type_name (PFloat x) = py ''float''"
| "type_name (PStr s) = py ''str''"
| "type_name (PList xs) = py ''list''"
| "type_name (PTuple xs) = py ''tuple''"
| "type_name (PDict kvs) = py ''dict''"
| "type_name (PObj md cls attrs) = cls"

fun type_repr :: "pyval \<Rightarrow> pystr" where
  "type_repr (PObj md cls attrs) = py ''<class '' @ [39] @ md @ [46] @ cls @ [39] @ py ''>''"
| "type_repr v = py ''<class '' @ [39] @ type_name v @ [39] @ py ''>''"

text \<open>Truthiness, as \<open>not records\<close> uses it; an object of a library class is true.\<close>

fun truthy :: "pyval \<Rightarrow> bool" where
  "truthy PNone = False"
| "truthy (PBool b) = b"
| "truthy (PInt i) = (i \<noteq> 0)"
| "truthy (PFloat x) = (x \<noteq> 0 \<and> x \<noteq> 0x8000000000000000)"
| "truthy (PStr s) = (s \<noteq> [])"
| "truthy (PList xs) = (xs \<noteq> [])"
| "truthy (PTuple xs) = (xs \<noteq> [])"
| "truthy (PDict kvs) = (kvs \<noteq> [])"
| "truthy (PObj md cls attrs) = True"

text \<open>
  \<open>hasattr\<close> and \<open>getattr\<close> for the attribute names the source asks for. None of them
  is an attribute of a built-in value, except \<open>items\<close> of a dictionary; that one is a
  bound method, which fails the test \<open>isinstance(val, list)\<close> just as an absent attribute
  is passed over.
\<close>

fun getattr :: "pyval \<Rightarrow> pystr \<Rightarrow> pyattr option" where
  "getattr (PObj md cls attrs) name = map_of attrs name"
| "getattr v name = None"

definition attribute_error :: "pyval \<Rightarrow> pystr \<Rightarrow> pyexc" where
  "attribute_error v name =
     PyExc ([39] @ type_name v @ [39] @ py '' object has no attribute '' @ [39] @ name @ [39])"

text \<open>\<open>obj.name()\<close>: the attribute is looked up and called.\<close>

definition call_method :: "pyval \<Rightarrow> pystr \<Rightarrow> pyexc + pyval" where
  "call_method obj name =
     (case getattr obj name of
        None \<Rightarrow> Inl (attribute_error obj name)
      | Some (Method r) \<Rightarrow> r
      | Some (Attr v) \<Rightarrow>
          Inl (PyExc ([39] @ type_name v @ [39] @ py '' object is not callable'')))"

text \<open>
  What the interpreter and the libraries contribute and the model leaves open: the float
  conversions, the \<open>JSONDecodeError\<close> that \<open>json.loads\<close> raises on a document it
  refuses, the two comprehensions that turn the rows and the description of a cursor into
  records, and the comparison \<open>a > b\<close> of two scores.
\<close>

record runtime =
  floats :: floatops
  decode_error :: "pystr \<Rightarrow> pyexc"
  cursor_records :: "pyval \<Rightarrow> pyval \<Rightarrow> pyexc + pyval"
  score_gt :: "pyval \<Rightarrow> pyval \<Rightarrow> pyexc + bool"

text \<open>\<open>json.loads(x)\<close> on a value: a string is decoded, anything else is a \<open>TypeError\<close>.\<close>

definition loads_value :: "runtime \<Rightarrow> pyval \<Rightarrow> pyexc + pyval" where
  "loads_value rt x =
     (case x of
        PStr s \<Rightarrow>
          (case json_loads (floats rt) s of
             Some j \<Rightarrow> Inr (pyval_of_json j)
           | None \<Rightarrow> Inl (decode_error rt s))
      | _ \<Rightarrow>
          Inl (PyExc (py ''the JSON object must be str, bytes or bytearray, not '' @ type_name x)))"

fun first_attr :: "pyval \<Rightarrow> pystr list \<Rightarrow> pyattr option" where
  "first_attr obj [] = None"
| "first_attr obj (n # ns) =
     (case getattr obj n of Some a \<Rightarrow> Some a | None \<Rightarrow> first_attr obj ns)"

fun first_list_attr :: "pyval \<Rightarrow> pystr list \<Rightarrow> pyval option" where
  "first_list_attr obj [] = None"
| "first_list_attr obj (n # ns) =
     (case getattr obj n of
        Some (Attr (PList xs)) \<Rightarrow> Some (PList xs)
      | _ \<Rightarrow> first_list_attr obj ns)"

text \<open>Branches 5 to 7 of \<open>_materialize\<close> and its final \<open>raise\<close>.\<close>

definition materialize_rest :: "runtime \<Rightarrow> pyval \<Rightarrow> pyexc + pyval" where
  "materialize_rest rt obj =
     (if getattr obj (py ''to_pandas'') \<noteq> None then
        (case call_method obj (py ''to_pandas'') of
           Inl e \<Rightarrow> Inl e
         | Inr df \<Rightarrow> call_method df (py ''to_dict''))
      else if getattr obj (py ''to_json'') \<noteq> None then
        (case call_method obj (py ''to_json'') of
           Inl e \<Rightarrow> Inl e
         | Inr t \<Rightarrow> loads_value rt t)
      else if getattr obj (py ''fetchall'') \<noteq> None \<and> getattr obj (py ''description'') \<noteq> None then
        (case call_method obj (py ''fetchall'') of
           Inl e \<Rightarrow> Inl e
         | Inr rows \<Rightarrow>
             (case getattr obj (py ''description'') of
                Some (Attr d) \<Rightarrow> cursor_records rt rows d
              | _ \<Rightarrow> Inl (PyExc ([39] @ py ''method'' @ [39] @ py '' object is not iterable''))))
      else
        Inl (PyExc (py ''Unable to materialize similarity_search result, type='' @ type_repr obj)))"

function (sequential) materialize :: "runtime \<Rightarrow> pyval \<Rightarrow> pyexc + pyval" where
  "materialize rt (PStr s) = loads_value rt (PStr s)"
| "materialize rt (PList xs) = Inr (PList xs)"
| "materialize rt (PTuple xs) = Inr (PList xs)"
| "materialize rt obj =
     (case first_attr obj [py ''collect'', py ''result''] of
        Some (Method r) \<Rightarrow> (case r of Inl e \<Rightarrow> Inl e | Inr val \<Rightarrow> materialize rt val)
      | Some (Attr val) \<Rightarrow> materialize rt val
      | None \<Rightarrow>
          (case first_list_attr obj [py ''similar_objects'', py ''records'', py ''items'', py ''data''] of
             Some val \<Rightarrow> Inr val
           | None \<Rightarrow> materialize_rest rt obj))"
  by pat_completeness auto
termination
proof -
  have mo: "map_of vb n = Some a \<Longrightarrow> size a \<le> size_list (size_prod (\<lambda>x. 0) size) vb"
    for vb :: "(pystr \<times> pyattr) list" and n a
    by (induction vb) (auto split: if_splits)
  have fa: "first_attr (PObj v va vb) ns = Some a
              \<Longrightarrow> size a \<le> size_list (size_prod (\<lambda>x. 0) size) vb"
    for v va vb ns a
    by (induction ns) (auto split: option.splits dest: mo)
  have nb: "first_attr obj ns = None" if "\<And>md cls attrs. obj \<noteq> PObj md cls attrs"
    for obj ns
  proof (induction ns)
    case Nil
    show ?case by simp
  next
    case (Cons n ns)
    with that show ?case by (cases obj) auto
  qed
  have fa2: "first_attr obj ns = Some a \<Longrightarrow> size a < size obj" for obj ns a
  proof (cases obj)
    case (PObj md cls attrs)
    assume "first_attr obj ns = Some a"
    with PObj fa [of md cls attrs ns a] show ?thesis by simp
  qed (simp_all add: nb)
  show ?thesis
    by (relation "measure (\<lambda>(rt, obj). size obj)")
       (auto simp del: first_attr.simps dest!: fa2)
qed

text \<open>Iteration over a value, as \<open>max\<close> does it.\<close>

fun py_iter :: "pyval \<Rightarrow> pyexc + pyval list" where
  "py_iter (PList xs) = Inr xs"
| "py_iter (PTuple xs) = Inr xs"
| "py_iter (PStr s) = Inr (map (\<lambda>c. PStr [c]) s)"
| "py_iter (PDict kvs) = Inr (map (\<lambda>kv. PStr (fst kv)) kvs)"
| "py_iter v = Inl (PyExc ([39] @ type_name v @ [39] @ py '' object is not iterable''))"

text \<open>\<open>r[key]\<close> with a string key; the text of a \<open>KeyError\<close> is the key in quotes.\<close>

fun getitem_str :: "pyval \<Rightarrow> pystr \<Rightarrow> pyexc + pyval" where
  "getitem_str (PDict kvs) key =
     (case map_of kvs key of
        Some x \<Rightarrow> Inr x
      | None \<Rightarrow> Inl (PyExc ([39] @ key @ [39])))"
| "getitem_str (PList xs) key = Inl (PyExc (py ''list indices must be integers or slices, not str''))"
| "getitem_str (PTuple xs) key = Inl (PyExc (py ''tuple indices must be integers or slices, not str''))"
| "getitem_str (PStr s) key =
     Inl (PyExc (py ''string indices must be integers, not '' @ [39] @ py ''str'' @ [39]))"
| "getitem_str v key = Inl (PyExc ([39] @ type_name v @ [39] @ py '' object is not subscriptable''))"

text \<open>
  \<open>max(records, key=lambda r: r["score"])\<close>: the items are visited in order, the key of
  each is computed and compared with the key of the best item so far, which is replaced
  only by an item whose key is greater.
\<close>

fun max_loop :: "runtime \<Rightarrow> pyval \<Rightarrow> pyval \<Rightarrow> pyval list \<Rightarrow> pyexc + pyval" where
  "max_loop rt maxitem maxval [] = Inr maxitem"
| "max_loop rt maxitem maxval (item # items) =
     (case getitem_str item (py ''score'') of
        Inl e \<Rightarrow> Inl e
      | Inr val \<Rightarrow>
          (case score_gt rt val maxval of
             Inl e \<Rightarrow> Inl e
           | Inr b \<Rightarrow>
               if b then max_loop rt item val items else max_loop rt maxitem maxval items))"

definition max_by_score :: "runtime \<Rightarrow> pyval \<Rightarrow> pyexc + pyval" where
  "max_by_score rt records =
     (case py_iter records of
        Inl e \<Rightarrow> Inl e
      | Inr [] \<Rightarrow> Inl (PyExc (py ''max() iterable argument is empty''))
      | Inr (item # items) \<Rightarrow>
          (case getitem_str item (py ''score'') of
             Inl e \<Rightarrow> Inl e
           | Inr val \<Rightarrow> max_loop rt item val items))"

text \<open>The score of a record when it is an integer (used to state what \<open>max\<close> picks).\<close>

definition int_score :: "pyval \<Rightarrow> int option" where
  "int_score d = (case getitem_str d (py ''score'') of Inr (PInt i) \<Rightarrow> Some i | _ \<Rightarrow> None)"

text \<open>
  \<open>py_encode_basestring_ascii\<close>, the string encoder of \<open>json.dumps\<close> with its default
  \<open>ensure_ascii=True\<close>: everything outside the printable ASCII range is escaped, a code
  point above \<open>0xFFFF\<close> as a surrogate pair.
\<close>

definition escape_char_ascii :: "nat \<Rightarrow> pystr" where
  "escape_char_ascii c =
     (if c = 34 then [92, 34]
      else if c = 92 then [92, 92]
      else if c = 10 then [92, 110]
      else if c = 13 then [92, 114]
      else if c = 9 then [92, 116]
      else if c = 8 then [92, 98]
      else if c = 12 then [92, 102]
      else if 32 \<le> c \<and> c \<le> 126 then [c]
      else if c < 65536 then [92, 117] @ hex4_str c
      else [92, 117] @ hex4_str (55296 + ((c - 65536) div 1024) mod 1024)
           @ [92, 117] @ hex4_str (56320 + (c - 65536) mod 1024))"

definition encode_basestring_ascii :: "pystr \<Rightarrow> pystr" where
  "encode_basestring_ascii s = 34 # concat (map escape_char_ascii s) @ [34]"

text \<open>\<open>json.dumps({"status": "error", "message": str(e)})\<close>.\<close>

definition error_json :: "pyexc \<Rightarrow> pystr" where
  "error_json e =
     [123, 34] @ py ''status'' @ [34] @ py '': '' @ [34] @ py ''error'' @ [34] @ py '', ''
     @ [34] @ py ''message'' @ [34] @ py '': '' @ encode_basestring_ascii (exc_str e) @ [125]"

text \<open>
  The body of the \<open>try\<close> block. \<open>similarity_search vs question top_k\<close> is the outcome
  of \<open>vs.similarity_search(...)\<close>; \<open>dbconn\<close> stands for the parameter
  \<open>conn\<close>, and \<open>dbconn sql kb_id\<close> is the outcome of the \<open>with\<close> block on it (\<open>cursor()\<close>, \<open>execute(sql, (kb_id,))\<close>, \<open>fetchone()\<close>, the
  closing of the cursor): it raises, or it gives the row, \<open>None\<close> when there is none.
\<close>

definition answer_only_body ::
  "runtime \<Rightarrow> nat \<Rightarrow> (nat \<Rightarrow> pystr \<Rightarrow> int \<Rightarrow> pyexc + pyval)
     \<Rightarrow> (pystr \<Rightarrow> pyval \<Rightarrow> pyexc + pyval list option) \<Rightarrow> pystr \<Rightarrow> int \<Rightarrow> pystr
     \<Rightarrow> pyexc + pyval" where
  "answer_only_body rt vs similarity_search dbconn question top_k faq_tbl =
     (case similarity_search vs question top_k of
        Inl e \<Rightarrow> Inl e
      | Inr raw \<Rightarrow>
          (case materialize rt raw of
             Inl e \<Rightarrow> Inl e
           | Inr records \<Rightarrow>
               if \<not> truthy records then Inr (PStr (py ''(No similar question found)''))
               else
                 (case max_by_score rt records of
                    Inl e \<Rightarrow> Inl e
                  | Inr best \<Rightarrow>
                      (case getitem_str best (py ''kb_id'') of
                         Inl e \<Rightarrow> Inl e
                       | Inr kb_id \<Rightarrow>
                           (case dbconn (py ''SELECT answer FROM '' @ [34] @ faq_tbl @ [34]
                                        @ py '' WHERE kb_id = ?'') kb_id of
                              Inl e \<Rightarrow> Inl e
                            | Inr row \<Rightarrow>
                                (case row of
                                   Some (answer # cols) \<Rightarrow> Inr answer
                                 | _ \<Rightarrow> Inr (PStr (py ''(No answer for this kb_id)''))))))))"

text \<open>
  The handler: \<open>get_evs\<close> is the outcome of the call \<open>get_evs()\<close>, which stands before
  the \<open>try\<close> block; an exception of the block becomes the error document.
\<close>

definition handle_evs_similarity_search_getAnswerOnly ::
  "runtime \<Rightarrow> (pyexc + nat) \<Rightarrow> (nat \<Rightarrow> pystr \<Rightarrow> int \<Rightarrow> pyexc + pyval)
     \<Rightarrow> (pystr \<Rightarrow> pyval \<Rightarrow> pyexc + pyval list option) \<Rightarrow> pystr \<Rightarrow> int \<Rightarrow> pystr
     \<Rightarrow> pyexc + pyval" where
  "handle_evs_similarity_search_getAnswerOnly rt get_evs similarity_search dbconn question top_k faq_tbl =
     (case get_evs of
        Inl e \<Rightarrow> Inl e
      | Inr vs \<Rightarrow>
          (case answer_only_body rt vs similarity_search dbconn question top_k faq_tbl of
             Inr answer \<Rightarrow> Inr answer
           | Inl e \<Rightarrow> Inr (PStr (error_json e))))"

text \<open>
  The tool \<open>vector_store_best_answer\<close> of \<open>server.py\<close>. It is dispatched through
  \<open>execute_db_tool\<close>, not through \<open>execute_vs_tool\<close>: the handler receives the global
  \<open>_tdconn\<close> as \<open>conn\<close> and the keyword arguments \<open>question\<close> and \<open>top_k\<close>, and
  \<open>faq_tbl\<close> keeps its default. \<open>query tdc\<close> is what the \<open>with\<close> block of the handler
  does on that \<open>_tdconn\<close>, and \<open>str_of\<close> is \<open>str()\<close> on a returned value that is not
  a string. The globals \<open>_evs\<close> and \<open>_enableEVS\<close> are not read on this path.
\<close>

definition as_pyany :: "(pyval \<Rightarrow> pystr) \<Rightarrow> pyval \<Rightarrow> pyany" where
  "as_pyany str_of v = (case v of PStr s \<Rightarrow> PyStr s | _ \<Rightarrow> PyOther (str_of v))"

definition vector_store_best_answer ::
  "floatops \<Rightarrow> runtime \<Rightarrow> (pyval \<Rightarrow> pystr) \<Rightarrow> (pyexc + TDConn) \<Rightarrow> (pyexc + nat)
     \<Rightarrow> (nat \<Rightarrow> pystr \<Rightarrow> int \<Rightarrow> pyexc + pyval)
     \<Rightarrow> (TDConn \<Rightarrow> pystr \<Rightarrow> pyval \<Rightarrow> pyexc + pyval list option)
     \<Rightarrow> pystr \<Rightarrow> int \<Rightarrow> TDConn \<Rightarrow> db_result" where
  "vector_store_best_answer fl rt str_of new_tdconn get_evs similarity_search query question top_k tdc =
     execute_db_tool fl new_tdconn
       (\<lambda>c. case handle_evs_similarity_search_getAnswerOnly rt get_evs similarity_search
                  (query c) question top_k (py ''FAQ_DEMO'') of
               Inl e \<Rightarrow> Inl e
             | Inr v \<Rightarrow> Inr (as_pyany str_of v))
       tdc"

section \<open>Notions for the round trip of the encoder and the decoder\<close>

text \<open>
  The text of a float as the number scanner accepts it: the whole text is a number, and it
  has a fraction or an exponent.
\<close>

definition float_literal :: "pystr \<Rightarrow> bool" where
  "float_literal t =
     (case match_int (case t of c # r \<Rightarrow> if c = 45 then r else t | [] \<Rightarrow> t) of
        None \<Rightarrow> False
      | Some (ip, s2) \<Rightarrow>
          (let (frac, s3) = match_frac s2;
               (ex, s4) = match_exp s3
           in (frac \<noteq> [] \<or> ex \<noteq> []) \<and> s4 = []))"

text \<open>
  What the round trip needs of the float conversions: \<open>float\<close> on a number never gives
  a NaN, and the \<open>repr\<close> of a float that is neither a NaN nor an infinity is a float
  text that \<open>float\<close> reads back to the same float.
\<close>

definition floats_ok :: "floatops \<Rightarrow> bool" where
  "floats_ok fl =
     ((\<forall>s. \<not> float_isnan (float_of_str fl s))
      \<and> (\<forall>x. \<not> float_isnan x \<and> x \<noteq> float_inf \<and> x \<noteq> float_neg_inf \<longrightarrow>
             float_literal (float_repr fl x) \<and> float_of_str fl (float_repr fl x) = x))"

text \<open>
  The values the decoder can return: a NaN is the one of \<open>float("nan")\<close>, and the keys
  of an object are distinct.
\<close>

fun json_wf :: "json \<Rightarrow> bool" where
  "json_wf (JFloat x) = (float_isnan x \<longrightarrow> x = float_nan)"
| "json_wf (JArr xs) = list_all json_wf xs"
| "json_wf (JObj kvs) = (distinct (map fst kvs) \<and> list_all (\<lambda>kv. json_wf (snd kv)) kvs)"
| "json_wf j = True"

text \<open>
  What follows an encoded term inside the output of the encoder (nothing, a comma or a
  newline), and the characters an encoded term can start with.
\<close>

definition term_end :: "pystr \<Rightarrow> bool" where
  "term_end rest = (case rest of [] \<Rightarrow> True | c # r \<Rightarrow> c = 44 \<or> c = 10)"

definition term_start :: "nat \<Rightarrow> bool" where
  "term_start c =
     (c = 34 \<or> c = 123 \<or> c = 91 \<or> c = 110 \<or> c = 116 \<or> c = 102 \<or> c = 78 \<or> c = 73
      \<or> c = 45 \<or> is_digit c)"

text \<open>Inputs that do not go on with a digit, or with anything that continues a number.\<close>

definition no_digit_next :: "pystr \<Rightarrow> bool" where
  "no_digit_next rest = (case rest of [] \<Rightarrow> True | c # r \<Rightarrow> \<not> is_digit c)"

definition no_number_next :: "pystr \<Rightarrow> bool" where
  "no_number_next rest =
     (case rest of
        [] \<Rightarrow> True
      | c # r \<Rightarrow> \<not> is_digit c \<and> c \<noteq> 46 \<and> c \<noteq> 101 \<and> c \<noteq> 69 \<and> c \<noteq> 43 \<and> c \<noteq> 45)"

text \<open>One item of an encoded object: the key, a colon and a space, the value.\<close>

definition encode_item :: "floatops \<Rightarrow> nat \<Rightarrow> pystr \<times> json \<Rightarrow> pystr" where
  "encode_item fl lvl kv = encode_basestring (fst kv) @ py '': '' @ iterencode fl lvl (snd kv)"

section \<open>Inputs of the examples\<close>

text \<open>
  A stand-in for the float conversions, for the examples: a float is written as the decimal
  number of its bits followed by \<open>.0\<close>, and read back from the digits before the dot.
\<close>

definition toy_float_of_str :: "pystr \<Rightarrow> pyfloat" where
  "toy_float_of_str s =
     (if float_isnan (of_nat (digits_val (takeWhile is_digit s))) then 0
      else of_nat (digits_val (takeWhile is_digit s)))"

definition toy_float_repr :: "pyfloat \<Rightarrow> pystr" where
  "toy_float_repr x = str_nat (unat x) @ py ''.0''"

definition toy_floatops :: floatops where
  "toy_floatops = \<lparr>float_of_str = toy_float_of_str, float_repr = toy_float_repr\<rparr>"

definition dead_tdconn :: TDConn where
  "dead_tdconn = \<lparr>conn = Some \<lparr>conn_id = 1, alive = False\<rparr>\<rparr>"

definition fresh_tdconn :: TDConn where
  "fresh_tdconn = \<lparr>conn = Some \<lparr>conn_id = 2, alive = True\<rparr>\<rparr>"

definition no_tdconn :: TDConn where
  "no_tdconn = \<lparr>conn = None\<rparr>"

definition pong_tool :: "TDConn \<Rightarrow> pyexc + pyany" where
  "pong_tool t = Inr (PyStr (py ''pong''))"

definition failing_tool :: "TDConn \<Rightarrow> pyexc + pyany" where
  "failing_tool t = Inl (PyExc (py ''[Error 3807] Object does not exist''))"

definition expired_tool :: "nat \<Rightarrow> nat \<Rightarrow> pyexc + pyany" where
  "expired_tool k s = Inl (PyExc (py ''401 Unauthorized''))"

definition enabled_vs :: vs_state where
  "enabled_vs = \<lparr>evs = Some 1, enableEVS = True\<rparr>"

definition running_process :: process where
  "running_process = \<lparr>alive_file = True, shutdown_in_progress = False, tdconn_closed = False\<rparr>"

definition starting_process :: process where
  "starting_process = \<lparr>alive_file = False, shutdown_in_progress = False, tdconn_closed = False\<rparr>"

definition toy_decode_error :: "pystr \<Rightarrow> pyexc" where
  "toy_decode_error s = PyExc (py ''Expecting value: line 1 column 1 (char 0)'')"

definition toy_cursor_records :: "pyval \<Rightarrow> pyval \<Rightarrow> pyexc + pyval" where
  "toy_cursor_records rows description = Inr (PList [])"

fun int_score_gt :: "pyval \<Rightarrow> pyval \<Rightarrow> pyexc + bool" where
  "int_score_gt (PInt a) (PInt b) = Inr (a > b)"
| "int_score_gt a b = Inl (PyExc (py ''unsupported comparison''))"

definition toy_runtime :: runtime where
  "toy_runtime = \<lparr>floats = toy_floatops, decode_error = toy_decode_error,
     cursor_records = toy_cursor_records, score_gt = int_score_gt\<rparr>"

definition two_hits :: pyval where
  "two_hits = PList [PDict [(py ''kb_id'', PInt 7), (py ''score'', PInt 3)],
                     PDict [(py ''kb_id'', PInt 9), (py ''score'', PInt 5)]]"

definition search_two_hits :: "nat \<Rightarrow> pystr \<Rightarrow> int \<Rightarrow> pyexc + pyval" where
  "search_two_hits vs question top_k = Inr two_hits"

definition search_no_hits :: "nat \<Rightarrow> pystr \<Rightarrow> int \<Rightarrow> pyexc + pyval" where
  "search_no_hits vs question top_k = Inr (PStr (py ''[]''))"

definition search_fails :: "nat \<Rightarrow> pystr \<Rightarrow> int \<Rightarrow> pyexc + pyval" where
  "search_fails vs question top_k = Inl (PyExc (py ''timeout''))"

definition faq_conn :: "pystr \<Rightarrow> pyval \<Rightarrow> pyexc + pyval list option" where
  "faq_conn sql kb_id = (if kb_id = PInt 9 then Inr (Some [PStr (py ''Use the reset link.'')]) else Inr None)"

definition empty_faq_conn :: "pystr \<Rightarrow> pyval \<Rightarrow> pyexc + pyval list option" where
  "empty_faq_conn sql kb_id = Inr None"

text \<open>The handler of the examples returns strings only, so \<open>str()\<close> is never asked.\<close>

definition unused_str_of :: "pyval \<Rightarrow> pystr" where
  "unused_str_of v = []"

section \<open>Properties\<close>

lemma py_Error: "py ''Error: '' = [69, 114, 114, 111, 114, 58, 32]"
  by (simp add: py_def)

lemma json_loads_Error: "json_loads fl (py ''Error: '' @ e) = None"
  by (simp add: json_loads_def py_Error skip_ws_def is_ws_def match_number_def match_int_def)

lemma format_error_response_text:
  "format_error_response fl e = [TextContent (py ''Error: '' @ e)]"
  by (simp add: format_error_response_def format_text_response_def json_loads_Error)

lemma format_text_response_single: "\<exists>t. format_text_response fl v = [TextContent t]"
  by (cases v) (auto simp: format_text_response_def split: option.splits)

subsection \<open>Database tools\<close>



text \<open>
  Claim C2, as the code has it. \<open>execute_db_tool\<close> tests the stored handle before the
  handler runs, but only for being absent: with no stored handle a new \<open>TDConn\<close> is
  built and stored, and the handler runs on it; a stored handle, alive or not, is handed to
  the handler as it is, with no reconnect, and stays stored. So a call that follows a
  reconnect which left a handle uses that handle and does not reconnect.
\<close>

theorem execute_db_tool_acquire:
  "(conn tdc = None \<and> new_tdconn = Inr tdc' \<longrightarrow>
      db_tdconn (execute_db_tool fl new_tdconn tool tdc) = tdc'
      \<and> db_events (execute_db_tool fl new_tdconn tool tdc) = [Reinit, DbToolCall tdc'])
   \<and> (conn tdc \<noteq> None \<longrightarrow>
      db_tdconn (execute_db_tool fl new_tdconn tool tdc) = tdc
      \<and> db_events (execute_db_tool fl new_tdconn tool tdc) = [DbToolCall tdc])
   \<and> (conn tdc = None \<and> new_tdconn = Inr tdc' \<and> conn tdc' \<noteq> None \<longrightarrow>
      db_tdconn (execute_db_tool fl new_tdconn2 tool2
                   (db_tdconn (execute_db_tool fl new_tdconn tool tdc))) = tdc'
      \<and> db_events (execute_db_tool fl new_tdconn2 tool2
                   (db_tdconn (execute_db_tool fl new_tdconn tool tdc))) = [DbToolCall tdc'])"
  by (auto simp: execute_db_tool_def truthy_conn_def split: sum.splits)

theorem execute_db_tool_acquire_witness:
  "db_tdconn (execute_db_tool toy_floatops (Inr fresh_tdconn) pong_tool no_tdconn) = fresh_tdconn
   \<and> db_events (execute_db_tool toy_floatops (Inr fresh_tdconn) pong_tool no_tdconn)
       = [Reinit, DbToolCall fresh_tdconn]
   \<and> db_events (execute_db_tool toy_floatops (Inr no_tdconn) failing_tool
        (db_tdconn (execute_db_tool toy_floatops (Inr fresh_tdconn) pong_tool no_tdconn)))
       = [DbToolCall fresh_tdconn]
   \<and> db_events (execute_db_tool toy_floatops (Inr no_tdconn) pong_tool fresh_tdconn)
       = [DbToolCall fresh_tdconn]"
  using execute_db_tool_acquire
          [of no_tdconn "Inr fresh_tdconn" fresh_tdconn toy_floatops pong_tool
              "Inr no_tdconn" failing_tool]
        execute_db_tool_acquire
          [of fresh_tdconn "Inr no_tdconn" no_tdconn toy_floatops pong_tool]
  by (simp add: no_tdconn_def fresh_tdconn_def execute_db_tool_def truthy_conn_def pong_tool_def failing_tool_def)

text \<open>
  Claim C2 as stated fails here: the stored handle is present and its session is not
  alive, and the call makes no reconnect; the handler runs on the dead handle, which stays
  stored.
\<close>

theorem execute_db_tool_dead_handle_counterexample:
  "conn dead_tdconn \<noteq> None
   \<and> \<not> alive (the (conn dead_tdconn))
   \<and> db_events (execute_db_tool toy_floatops (Inr fresh_tdconn) pong_tool dead_tdconn)
       = [DbToolCall dead_tdconn]
   \<and> db_tdconn (execute_db_tool toy_floatops (Inr fresh_tdconn) pong_tool dead_tdconn)
       = dead_tdconn"
  by (simp add: execute_db_tool_def truthy_conn_def dead_tdconn_def pong_tool_def)

subsection \<open>Vector store tools\<close>

lemma execute_vs_tool_disabled:
  "\<not> enableEVS st \<Longrightarrow>
     execute_vs_tool fl refresh_evs tool st
       = \<lparr>vs_outcome = Inr [TextContent
            (py ''Error: Enterprise Vector Store is not available on this server.'')],
          vs_after = st, vs_events = []\<rparr>"
  by (simp add: execute_vs_tool_def format_error_response_text py_def)

lemma run_vs_tools_disabled:
  "\<not> enableEVS st \<Longrightarrow> r \<in> set (run_vs_tools fl st calls) \<Longrightarrow>
     r = \<lparr>vs_outcome = Inr [TextContent
            (py ''Error: Enterprise Vector Store is not available on this server.'')],
          vs_after = st, vs_events = []\<rparr>"
proof (induction calls)
  case Nil
  then show ?case by simp
next
  case (Cons c calls)
  obtain refresh_evs tool where c: "c = (refresh_evs, tool)"
    by (cases c)
  from Cons.prems(1) have first: "execute_vs_tool fl refresh_evs tool st
       = \<lparr>vs_outcome = Inr [TextContent
            (py ''Error: Enterprise Vector Store is not available on this server.'')],
          vs_after = st, vs_events = []\<rparr>"
    by (rule execute_vs_tool_disabled)
  from Cons.prems(2) have "r = execute_vs_tool fl refresh_evs tool st
      \<or> r \<in> set (run_vs_tools fl st calls)"
    by (simp add: c first)
  then show ?case
    using first Cons.IH [OF Cons.prems(1)] by auto
qed

lemma length_run_vs_tools: "length (run_vs_tools fl st calls) = length calls"
  by (induction calls arbitrary: st) auto

text \<open>
  The guarded path. When the connect attempt of the start-up code fails, \<open>_enableEVS\<close>
  is false, and each dispatch through \<open>execute_vs_tool\<close>, whatever the handler and its
  arguments, returns the fixed response
  \<open>"Error: Enterprise Vector Store is not available on this server."\<close>, calls neither
  the handler nor the refresh, and leaves the flag false.
\<close>

theorem vs_disabled_after_failed_start:
  "get_evs = Inl e \<longrightarrow>
     \<not> enableEVS (startup_evs vs_name get_evs)
     \<and> length (run_vs_tools fl (startup_evs vs_name get_evs) calls) = length calls
     \<and> (\<forall>r \<in> set (run_vs_tools fl (startup_evs vs_name get_evs) calls).
          vs_outcome r = Inr [TextContent
            (py ''Error: Enterprise Vector Store is not available on this server.'')]
          \<and> vs_events r = []
          \<and> \<not> enableEVS (vs_after r))"
proof
  assume fail: "get_evs = Inl e"
  then have off: "\<not> enableEVS (startup_evs vs_name get_evs)"
    by (simp add: startup_evs_def)
  have "vs_outcome r = Inr [TextContent
            (py ''Error: Enterprise Vector Store is not available on this server.'')]
          \<and> vs_events r = [] \<and> \<not> enableEVS (vs_after r)"
    if "r \<in> set (run_vs_tools fl (startup_evs vs_name get_evs) calls)" for r
    using run_vs_tools_disabled [OF off that] off by simp
  then show "\<not> enableEVS (startup_evs vs_name get_evs)
     \<and> length (run_vs_tools fl (startup_evs vs_name get_evs) calls) = length calls
     \<and> (\<forall>r \<in> set (run_vs_tools fl (startup_evs vs_name get_evs) calls).
          vs_outcome r = Inr [TextContent
            (py ''Error: Enterprise Vector Store is not available on this server.'')]
          \<and> vs_events r = []
          \<and> \<not> enableEVS (vs_after r))"
    using off by (simp add: length_run_vs_tools)
qed

theorem vs_disabled_after_failed_start_witness:
  "map vs_outcome (run_vs_tools toy_floatops
       (startup_evs (py ''vs_demo'') (Inl (PyExc (py ''connection refused''))))
       [(Inr 2, expired_tool), (Inl (PyExc (py ''down'')), expired_tool)])
     = [Inr [TextContent (py ''Error: Enterprise Vector Store is not available on this server.'')],
        Inr [TextContent (py ''Error: Enterprise Vector Store is not available on this server.'')]]
   \<and> map vs_events (run_vs_tools toy_floatops
       (startup_evs (py ''vs_demo'') (Inl (PyExc (py ''connection refused''))))
       [(Inr 2, expired_tool), (Inl (PyExc (py ''down'')), expired_tool)]) = [[], []]"
  using vs_disabled_after_failed_start
      [of "Inl (PyExc (py ''connection refused''))" "PyExc (py ''connection refused'')"
          "py ''vs_demo''" toy_floatops
          "[(Inr 2, expired_tool), (Inl (PyExc (py ''down'')), expired_tool)]"]
  by simp

text \<open>
  The good path of \<open>execute_vs_tool\<close>: an enabled call whose first execution fails with
  the expiry signature, followed by a refresh that returns a session, makes one refresh
  and one retry on the new session, and returns a response.
\<close>

lemma execute_vs_tool_refresh_retry:
  assumes "enableEVS st" and "evs st = Some s" and "tool 0 s = Inl e" and "is_expiry e"
    and "refresh_evs = Inr s'"
  shows "vs_events (execute_vs_tool fl refresh_evs tool st)
           = [VsToolCall 0 s, Refresh, VsToolCall 1 s']"
    and "vs_outcome (execute_vs_tool fl refresh_evs tool st)
           = Inr (case tool 1 s' of
                    Inr v \<Rightarrow> format_text_response fl v
                  | Inl retry_err \<Rightarrow> [TextContent
                      (py ''Error: After refresh, still failed: '' @ exc_str retry_err)])"
  using assms
  by (auto simp: execute_vs_tool_def call_vs_tool_def vs_tool_events_def
        format_error_response_text py_def split: sum.splits)

lemma execute_vs_tool_other_failure:
  assumes "enableEVS st" and "evs st = Some s" and "tool 0 s = Inl e" and "\<not> is_expiry e"
  shows "vs_events (execute_vs_tool fl refresh_evs tool st) = [VsToolCall 0 s]"
    and "vs_outcome (execute_vs_tool fl refresh_evs tool st)
           = Inr [TextContent (py ''Error: '' @ exc_str e)]"
  using assms
  by (auto simp: execute_vs_tool_def call_vs_tool_def vs_tool_events_def
        format_error_response_text split: sum.splits)

text \<open>
  The only exception that leaves \<open>execute_vs_tool\<close> is the one of the refresh.
\<close>

lemma execute_vs_tool_raises_iff:
  "vs_outcome (execute_vs_tool fl refresh_evs tool st) = Inl ex \<longleftrightarrow>
     enableEVS st
     \<and> (\<exists>e. call_vs_tool tool 0 (evs st) = Inl e \<and> is_expiry e)
     \<and> refresh_evs = Inl ex"
  by (auto simp: execute_vs_tool_def split: sum.splits)

text \<open>
  Claim C1 fails on the code at this input: the first execution fails with
  \<open>401 Unauthorized\<close> and \<open>refresh_evs()\<close> raises. The refresh is called in the
  exception handler outside any \<open>try\<close>, so its exception leaves \<open>execute_vs_tool\<close>: no
  response is returned and the retry is not made.
\<close>

theorem execute_vs_tool_refresh_raises:
  "vs_outcome (execute_vs_tool toy_floatops (Inl (PyExc (py ''connection refused'')))
       expired_tool enabled_vs) = Inl (PyExc (py ''connection refused''))
   \<and> vs_events (execute_vs_tool toy_floatops (Inl (PyExc (py ''connection refused'')))
       expired_tool enabled_vs) = [VsToolCall 0 1, Refresh]"
  by (simp add: execute_vs_tool_def call_vs_tool_def vs_tool_events_def enabled_vs_def
        expired_tool_def is_expiry_def py_def)

subsection \<open>Start and shutdown\<close>

lemma shutdown_removes_marker: "\<not> alive_file (fst (shutdown sig close p))"
  by (cases close) (simp_all add: shutdown_def Let_def)

lemma main_sse_creates_marker:
  "alive_file (fst (main (py ''sse'') (Inr n) p)) \<and> snd (main (py ''sse'') (Inr n) p) = Inr ServeSSE"
  by (simp add: main_def)

text \<open>
  The flag \<open>shutdown_in_progress\<close> is set only on the path that ends in \<open>os._exit\<close>:
  a call of \<open>shutdown\<close> that does not end the process leaves the flag as it found it.
\<close>

lemma shutdown_flag_unchanged_unless_exit:
  "(\<forall>c. snd (shutdown sig close p) \<noteq> Exit c) \<Longrightarrow>
     shutdown_in_progress (fst (shutdown sig close p)) = shutdown_in_progress p"
  by (cases close) (auto simp: shutdown_def Let_def split: if_splits)

lemma shutdown_forced_only_when_flagged:
  "\<not> shutdown_in_progress p \<Longrightarrow> snd (shutdown sig close p) \<noteq> Exit 1"
  by (cases close; cases sig) (auto simp: shutdown_def Let_def)

text \<open>
  Claim C5 fails on the code at this input: the first trigger (SIGTERM) starts the teardown
  and \<open>_tdconn.close()\<close> hangs; \<open>shutdown_in_progress\<close> is assigned only after
  \<open>close()\<close> has returned, so it is still false. A second trigger that runs \<open>shutdown\<close>
  in that state does not take the branch \<open>os._exit(1)\<close>: it calls \<open>close()\<close> again and
  the process does not end.
\<close>

theorem shutdown_second_trigger_blocked:
  "snd (shutdown (Some 15) CloseHangs running_process) = NeverReturns
   \<and> \<not> shutdown_in_progress (fst (shutdown (Some 15) CloseHangs running_process))
   \<and> snd (shutdown (Some 15) CloseHangs (fst (shutdown (Some 15) CloseHangs running_process)))
       = NeverReturns"
  by (simp add: shutdown_def running_process_def)

lemma shutdown_exit_code_clean:
  "\<not> shutdown_in_progress p \<Longrightarrow>
     snd (shutdown None CloseReturns p) = Exit 0
     \<and> snd (shutdown (Some n) CloseReturns p) = Exit (128 + n)"
  by (simp add: shutdown_def)

text \<open>
  Claim C7 holds on the code for its first two parts and fails for the third. A call of
  \<open>shutdown\<close> whose teardown returns ends the process with code 0 when there is no
  signal and with 128 plus the signal number when there is one (here SIGTERM, 143). The
  code 1 of a forced double shutdown is never produced: while the teardown of the first
  trigger (SIGTERM) has not returned, \<open>shutdown_in_progress\<close> is still false, so a
  second trigger (SIGINT) does not take the branch \<open>os._exit(1)\<close>; it runs the teardown
  again and ends the process with code 130 if that teardown returns, and not at all if it
  hangs too.
\<close>

theorem shutdown_forced_exit_code:
  "snd (shutdown None CloseReturns running_process) = Exit 0
   \<and> snd (shutdown (Some 15) CloseReturns running_process) = Exit 143
   \<and> snd (shutdown (Some 15) CloseHangs running_process) = NeverReturns
   \<and> snd (shutdown (Some 2) CloseReturns
        (fst (shutdown (Some 15) CloseHangs running_process))) = Exit 130
   \<and> snd (shutdown (Some 2) CloseHangs
        (fst (shutdown (Some 15) CloseHangs running_process))) = NeverReturns"
  by (simp add: shutdown_def running_process_def)

text \<open>
  Claim C8 fails on the code at this input: with \<open>MCP_TRANSPORT=streamable-http\<close> and a
  valid port the server starts to serve over HTTP, and \<open>/tmp/.alive\<close> has not been
  created; only the branch for \<open>sse\<close> creates it.
\<close>

theorem main_streamable_http_no_marker:
  "snd (main (py ''streamable-http'') (Inr 8001) starting_process) = Inr ServeStreamableHTTP
   \<and> \<not> alive_file (fst (main (py ''streamable-http'') (Inr 8001) starting_process))
   \<and> alive_file (fst (main (py ''sse'') (Inr 8001) starting_process))"
  by (simp add: main_def starting_process_def py_def)

subsection \<open>Responses\<close>

text \<open>
  Claim C9. \<open>format_text_response\<close> returns a list of exactly one text item for every
  input: the text of \<open>str()\<close> for a value that is not a string, the re-serialised
  document for a string that parses as JSON, and the string itself otherwise. So
  \<open>format_error_response\<close> returns the single text item \<open>"Error: " + error\<close>, whose
  first seven characters are the prefix \<open>"Error: "\<close>.
\<close>

theorem format_text_response_one_item:
  "(\<exists>t. format_text_response fl v = [TextContent t])
   \<and> format_text_response fl (PyOther t) = [TextContent t]
   \<and> (json_loads fl s = Some j \<longrightarrow>
        format_text_response fl (PyStr s) = [TextContent (json_dumps fl j)])
   \<and> (json_loads fl s = None \<longrightarrow> format_text_response fl (PyStr s) = [TextContent s])
   \<and> format_error_response fl error = [TextContent (py ''Error: '' @ error)]
   \<and> take 7 (text_of (hd (format_error_response fl error))) = py ''Error: ''"
  using format_text_response_single [of fl v]
  by (simp add: format_text_response_def format_error_response_text py_Error)

theorem format_text_response_one_item_witness:
  "format_text_response toy_floatops (PyStr (py ''[1, 2]''))
     = [TextContent [91, 10, 32, 32, 49, 44, 10, 32, 32, 50, 10, 93]]
   \<and> format_text_response toy_floatops (PyStr (py ''pong'')) = [TextContent (py ''pong'')]
   \<and> format_text_response toy_floatops (PyOther (py ''42'')) = [TextContent (py ''42'')]"
proof -
  have a: "json_loads toy_floatops (py ''[1, 2]'') = Some (JArr [JInt 1, JInt 2])"
    by (simp add: json_loads_def py_def skip_ws_def is_ws_def match_number_def match_int_def
          match_frac_def match_exp_def is_digit_def digits_val_def)
  have b: "json_dumps toy_floatops (JArr [JInt 1, JInt 2])
             = [91, 10, 32, 32, 49, 44, 10, 32, 32, 50, 10, 93]"
    by (simp add: json_dumps_def newline_indent_def str_int_def str_nat.simps numeral_2_eq_2)
  have c: "json_loads toy_floatops (py ''pong'') = None"
    by (simp add: json_loads_def py_def skip_ws_def is_ws_def match_number_def match_int_def)
  show ?thesis
    using format_text_response_one_item
            [of toy_floatops "PyStr (py ''[1, 2]'')" "py ''42''" "py ''[1, 2]''"
                "JArr [JInt 1, JInt 2]" "[]"]
          format_text_response_one_item
            [of toy_floatops "PyStr (py ''pong'')" "py ''42''" "py ''pong''" JNull "[]"]
          a b c
    by simp
qed

subsection \<open>The answer-only search tool\<close>

lemma max_loop_best:
  assumes gt: "score_gt rt = int_score_gt"
  shows "int_score maxitem = Some m \<Longrightarrow> \<forall>d \<in> set items. int_score d \<noteq> None \<Longrightarrow>
     \<exists>best b. max_loop rt maxitem (PInt m) items = Inr best
       \<and> best \<in> insert maxitem (set items) \<and> int_score best = Some b \<and> m \<le> b
       \<and> (\<forall>d \<in> set items. \<forall>i. int_score d = Some i \<longrightarrow> i \<le> b)"
proof (induction items arbitrary: maxitem m)
  case Nil
  then show ?case by simp
next
  case (Cons item items)
  from Cons.prems(2) obtain i where i: "int_score item = Some i" by auto
  then have val: "getitem_str item (py ''score'') = Inr (PInt i)"
    by (auto simp: int_score_def split: sum.splits pyval.splits)
  from Cons.prems(2) have rest: "\<forall>d \<in> set items. int_score d \<noteq> None" by simp
  show ?case
  proof (cases "i > m")
    case True
    from Cons.IH [OF i rest] obtain best b where
      "max_loop rt item (PInt i) items = Inr best" "best \<in> insert item (set items)"
      "int_score best = Some b" "i \<le> b"
      "\<forall>d \<in> set items. \<forall>i. int_score d = Some i \<longrightarrow> i \<le> b"
      by blast
    with True val gt i show ?thesis by auto
  next
    case False
    from Cons.IH [OF Cons.prems(1) rest] obtain best b where
      "max_loop rt maxitem (PInt m) items = Inr best" "best \<in> insert maxitem (set items)"
      "int_score best = Some b" "m \<le> b"
      "\<forall>d \<in> set items. \<forall>i. int_score d = Some i \<longrightarrow> i \<le> b"
      by blast
    with False val gt i show ?thesis by auto
  qed
qed

text \<open>
  With integer scores compared as integers, \<open>max\<close> picks a record of the list whose score
  no other record exceeds.
\<close>

lemma max_by_score_best:
  assumes gt: "score_gt rt = int_score_gt" and ne: "ds \<noteq> []"
    and scored: "\<forall>d \<in> set ds. int_score d \<noteq> None"
  shows "\<exists>best b. max_by_score rt (PList ds) = Inr best \<and> best \<in> set ds
           \<and> int_score best = Some b
           \<and> (\<forall>d \<in> set ds. \<forall>i. int_score d = Some i \<longrightarrow> i \<le> b)"
proof -
  from ne obtain item items where ds: "ds = item # items" by (cases ds) auto
  with scored obtain m where m: "int_score item = Some m" by auto
  then have val: "getitem_str item (py ''score'') = Inr (PInt m)"
    by (auto simp: int_score_def split: sum.splits pyval.splits)
  from scored ds have rest: "\<forall>d \<in> set items. int_score d \<noteq> None" by simp
  from max_loop_best [OF gt m rest] obtain best b where
    "max_loop rt item (PInt m) items = Inr best" "best \<in> insert item (set items)"
    "int_score best = Some b" "m \<le> b"
    "\<forall>d \<in> set items. \<forall>i. int_score d = Some i \<longrightarrow> i \<le> b"
    by blast
  with ds val m show ?thesis
    by (auto simp: max_by_score_def)
qed

text \<open>
  Claim C10, as the code has it. Once \<open>get_evs()\<close> has returned a session, the handler
  returns and does not raise: the error document with the message of the exception when
  a step of the \<open>try\<close> block raises; the string \<open>(No similar question found)\<close> when the
  materialised records are falsy; the string \<open>(No answer for this kb_id)\<close> when the
  query for the \<open>kb_id\<close> of the best record gives no row (or an empty one); and
  otherwise the first column of the row, as it is.
\<close>

theorem answer_only_never_raises_after_get_evs:
  "get_evs = Inr vs \<longrightarrow>
     (\<exists>r. handle_evs_similarity_search_getAnswerOnly rt get_evs similarity_search dbconn
             question top_k faq_tbl = Inr r)
     \<and> (answer_only_body rt vs similarity_search dbconn question top_k faq_tbl = Inl e \<longrightarrow>
          handle_evs_similarity_search_getAnswerOnly rt get_evs similarity_search dbconn
             question top_k faq_tbl = Inr (PStr (error_json e)))
     \<and> (similarity_search vs question top_k = Inl e \<longrightarrow>
          handle_evs_similarity_search_getAnswerOnly rt get_evs similarity_search dbconn
             question top_k faq_tbl = Inr (PStr (error_json e)))
     \<and> (similarity_search vs question top_k = Inr raw \<and> materialize rt raw = Inl e \<longrightarrow>
          handle_evs_similarity_search_getAnswerOnly rt get_evs similarity_search dbconn
             question top_k faq_tbl = Inr (PStr (error_json e)))
     \<and> (similarity_search vs question top_k = Inr raw \<and> materialize rt raw = Inr records
          \<and> \<not> truthy records \<longrightarrow>
          handle_evs_similarity_search_getAnswerOnly rt get_evs similarity_search dbconn
             question top_k faq_tbl = Inr (PStr (py ''(No similar question found)'')))
     \<and> (similarity_search vs question top_k = Inr raw \<and> materialize rt raw = Inr records
          \<and> truthy records \<and> max_by_score rt records = Inl e \<longrightarrow>
          handle_evs_similarity_search_getAnswerOnly rt get_evs similarity_search dbconn
             question top_k faq_tbl = Inr (PStr (error_json e)))
     \<and> (similarity_search vs question top_k = Inr raw \<and> materialize rt raw = Inr records
          \<and> truthy records \<and> max_by_score rt records = Inr best
          \<and> getitem_str best (py ''kb_id'') = Inl e \<longrightarrow>
          handle_evs_similarity_search_getAnswerOnly rt get_evs similarity_search dbconn
             question top_k faq_tbl = Inr (PStr (error_json e)))
     \<and> (similarity_search vs question top_k = Inr raw \<and> materialize rt raw = Inr records
          \<and> truthy records \<and> max_by_score rt records = Inr best
          \<and> getitem_str best (py ''kb_id'') = Inr kb_id
          \<and> dbconn (py ''SELECT answer FROM '' @ [34] @ faq_tbl @ [34] @ py '' WHERE kb_id = ?'')
                kb_id = Inl e \<longrightarrow>
          handle_evs_similarity_search_getAnswerOnly rt get_evs similarity_search dbconn
             question top_k faq_tbl = Inr (PStr (error_json e)))
     \<and> (similarity_search vs question top_k = Inr raw \<and> materialize rt raw = Inr records
          \<and> truthy records \<and> max_by_score rt records = Inr best
          \<and> getitem_str best (py ''kb_id'') = Inr kb_id
          \<and> dbconn (py ''SELECT answer FROM '' @ [34] @ faq_tbl @ [34] @ py '' WHERE kb_id = ?'')
                kb_id = Inr row
          \<and> (row = None \<or> row = Some []) \<longrightarrow>
          handle_evs_similarity_search_getAnswerOnly rt get_evs similarity_search dbconn
             question top_k faq_tbl = Inr (PStr (py ''(No answer for this kb_id)'')))
     \<and> (similarity_search vs question top_k = Inr raw \<and> materialize rt raw = Inr records
          \<and> truthy records \<and> max_by_score rt records = Inr best
          \<and> getitem_str best (py ''kb_id'') = Inr kb_id
          \<and> dbconn (py ''SELECT answer FROM '' @ [34] @ faq_tbl @ [34] @ py '' WHERE kb_id = ?'')
                kb_id = Inr (Some (answer # cols)) \<longrightarrow>
          handle_evs_similarity_search_getAnswerOnly rt get_evs similarity_search dbconn
             question top_k faq_tbl = Inr answer)"
  by (auto simp: handle_evs_similarity_search_getAnswerOnly_def answer_only_body_def
           split: sum.splits option.splits list.splits)

lemma materialize_two_hits: "materialize toy_runtime two_hits = Inr two_hits"
  by (simp add: two_hits_def)

lemma max_two_hits:
  "max_by_score toy_runtime two_hits = Inr (PDict [(py ''kb_id'', PInt 9), (py ''score'', PInt 5)])"
  by (simp add: max_by_score_def two_hits_def toy_runtime_def py_def)

lemma materialize_no_hits: "materialize toy_runtime (PStr (py ''[]'')) = Inr (PList [])"
  by (simp add: loads_value_def toy_runtime_def json_loads_def py_def skip_ws_def is_ws_def)

theorem answer_only_never_raises_after_get_evs_witness:
  "handle_evs_similarity_search_getAnswerOnly toy_runtime (Inr 1) search_two_hits faq_conn
       (py ''How do I reset my password?'') 2 (py ''FAQ_DEMO'')
     = Inr (PStr (py ''Use the reset link.''))
   \<and> handle_evs_similarity_search_getAnswerOnly toy_runtime (Inr 1) search_two_hits empty_faq_conn
       (py ''How do I reset my password?'') 2 (py ''FAQ_DEMO'')
     = Inr (PStr (py ''(No answer for this kb_id)''))
   \<and> handle_evs_similarity_search_getAnswerOnly toy_runtime (Inr 1) search_no_hits faq_conn
       (py ''How do I reset my password?'') 2 (py ''FAQ_DEMO'')
     = Inr (PStr (py ''(No similar question found)''))
   \<and> handle_evs_similarity_search_getAnswerOnly toy_runtime (Inr 1) search_fails faq_conn
       (py ''How do I reset my password?'') 2 (py ''FAQ_DEMO'')
     = Inr (PStr (error_json (PyExc (py ''timeout''))))"
proof -
  let ?q = "py ''How do I reset my password?''"
  let ?best = "PDict [(py ''kb_id'', PInt 9), (py ''score'', PInt 5)]"
  let ?sql = "py ''SELECT answer FROM '' @ [34] @ py ''FAQ_DEMO'' @ [34] @ py '' WHERE kb_id = ?''"
  have s1: "search_two_hits 1 ?q 2 = Inr two_hits"
    by (simp add: search_two_hits_def)
  have s2: "search_no_hits 1 ?q 2 = Inr (PStr (py ''[]''))"
    by (simp add: search_no_hits_def)
  have s3: "search_fails 1 ?q 2 = Inl (PyExc (py ''timeout''))"
    by (simp add: search_fails_def)
  have t: "truthy two_hits" "\<not> truthy (PList [])"
    by (simp_all add: two_hits_def)
  have k: "getitem_str ?best (py ''kb_id'') = Inr (PInt 9)"
    by simp
  have c1: "faq_conn ?sql (PInt 9) = Inr (Some [PStr (py ''Use the reset link.'')])"
    by (simp add: faq_conn_def)
  have c2: "empty_faq_conn ?sql (PInt 9) = Inr None"
    by (simp add: empty_faq_conn_def)
  have a1: "handle_evs_similarity_search_getAnswerOnly toy_runtime (Inr 1) search_two_hits faq_conn
       ?q 2 (py ''FAQ_DEMO'') = Inr (PStr (py ''Use the reset link.''))"
    using answer_only_never_raises_after_get_evs
            [of "Inr 1" 1 toy_runtime search_two_hits faq_conn ?q 2 "py ''FAQ_DEMO''" _
                two_hits two_hits ?best "PInt 9" _ "PStr (py ''Use the reset link.'')" "[]"]
          s1 materialize_two_hits t max_two_hits k c1
    by simp
  have a2: "handle_evs_similarity_search_getAnswerOnly toy_runtime (Inr 1) search_two_hits
       empty_faq_conn ?q 2 (py ''FAQ_DEMO'') = Inr (PStr (py ''(No answer for this kb_id)''))"
    using answer_only_never_raises_after_get_evs
            [of "Inr 1" 1 toy_runtime search_two_hits empty_faq_conn ?q 2 "py ''FAQ_DEMO''" _
                two_hits two_hits ?best "PInt 9" None]
          s1 materialize_two_hits t max_two_hits k c2
    by simp
  have a3: "handle_evs_similarity_search_getAnswerOnly toy_runtime (Inr 1) search_no_hits faq_conn
       ?q 2 (py ''FAQ_DEMO'') = Inr (PStr (py ''(No similar question found)''))"
    using answer_only_never_raises_after_get_evs
            [of "Inr 1" 1 toy_runtime search_no_hits faq_conn ?q 2 "py ''FAQ_DEMO''" _
                "PStr (py ''[]'')" "PList []"]
          s2 materialize_no_hits t
    by simp
  have a4: "handle_evs_similarity_search_getAnswerOnly toy_runtime (Inr 1) search_fails faq_conn
       ?q 2 (py ''FAQ_DEMO'') = Inr (PStr (error_json (PyExc (py ''timeout''))))"
    using answer_only_never_raises_after_get_evs
            [of "Inr 1" 1 toy_runtime search_fails faq_conn ?q 2 "py ''FAQ_DEMO''"
                "PyExc (py ''timeout'')"]
          s3
    by simp
  from a1 a2 a3 a4 show ?thesis by simp
qed

text \<open>
  Claim C10 as stated fails here: \<open>get_evs()\<close> raises, and the handler raises with it.
\<close>

theorem answer_only_get_evs_raises_counterexample:
  "handle_evs_similarity_search_getAnswerOnly toy_runtime (Inl (PyExc (py ''EVS is unreachable'')))
       search_two_hits faq_conn (py ''How do I reset my password?'') 2 (py ''FAQ_DEMO'')
     = Inl (PyExc (py ''EVS is unreachable''))"
  by (simp add: handle_evs_similarity_search_getAnswerOnly_def)

subsection \<open>The two vector store tools\<close>

lemma answer_only_two_hits:
  "handle_evs_similarity_search_getAnswerOnly toy_runtime (Inr 1) search_two_hits faq_conn
       (py ''How do I reset my password?'') 2 (py ''FAQ_DEMO'')
     = Inr (PStr (py ''Use the reset link.''))"
proof -
  have k: "getitem_str (PDict [(py ''kb_id'', PInt 9), (py ''score'', PInt 5)]) (py ''kb_id'')
             = Inr (PInt 9)"
    by simp
  have t: "truthy two_hits"
    by (simp add: two_hits_def)
  show ?thesis
    by (simp add: handle_evs_similarity_search_getAnswerOnly_def answer_only_body_def
          search_two_hits_def materialize_two_hits t max_two_hits k faq_conn_def)
qed

lemma json_loads_reset_link: "json_loads fl (py ''Use the reset link.'') = None"
  by (simp add: json_loads_def py_def skip_ws_def is_ws_def match_number_def match_int_def)

text \<open>
  Claim C4 fails on the code at this input: \<open>VS_NAME\<close> is set and the connect attempt of
  the start-up code fails, so \<open>_enableEVS\<close> is false, and the tool
  \<open>vector_store_similarity_search\<close>, dispatched through \<open>execute_vs_tool\<close>, returns
  the fixed response. The tool \<open>vector_store_best_answer\<close> is dispatched through
  \<open>execute_db_tool\<close>, which does not read the flag: its handler calls \<open>get_evs()\<close>
  and the response follows what the vector store does then. While the store is still
  unreachable, the response is the error of the new connect attempt; once the store can be
  reached, the tool searches it and returns the answer.
\<close>

theorem vector_store_best_answer_ignores_flag:
  "\<not> enableEVS (startup_evs (py ''vs_demo'') (Inl (PyExc (py ''connection refused''))))
   \<and> vs_outcome (execute_vs_tool toy_floatops (Inr 2) expired_tool
        (startup_evs (py ''vs_demo'') (Inl (PyExc (py ''connection refused'')))))
       = Inr [TextContent (py ''Error: Enterprise Vector Store is not available on this server.'')]
   \<and> db_outcome (vector_store_best_answer toy_floatops toy_runtime unused_str_of (Inr fresh_tdconn)
        (Inl (PyExc (py ''connection refused''))) search_two_hits (\<lambda>c. faq_conn)
        (py ''How do I reset my password?'') 2 fresh_tdconn)
       = Inr [TextContent (py ''Error: connection refused'')]
   \<and> db_outcome (vector_store_best_answer toy_floatops toy_runtime unused_str_of (Inr fresh_tdconn)
        (Inr 1) search_two_hits (\<lambda>c. faq_conn)
        (py ''How do I reset my password?'') 2 fresh_tdconn)
       = Inr [TextContent (py ''Use the reset link.'')]"
proof -
  have off: "\<not> enableEVS (startup_evs (py ''vs_demo'') (Inl (PyExc (py ''connection refused''))))"
    by (simp add: startup_evs_def)
  have down: "handle_evs_similarity_search_getAnswerOnly toy_runtime
        (Inl (PyExc (py ''connection refused''))) search_two_hits faq_conn
        (py ''How do I reset my password?'') 2 (py ''FAQ_DEMO'')
      = Inl (PyExc (py ''connection refused''))"
    by (simp add: handle_evs_similarity_search_getAnswerOnly_def)
  have c: "truthy_conn (conn fresh_tdconn)"
    by (simp add: truthy_conn_def fresh_tdconn_def)
  have "db_outcome (vector_store_best_answer toy_floatops toy_runtime unused_str_of (Inr fresh_tdconn)
        (Inl (PyExc (py ''connection refused''))) search_two_hits (\<lambda>c. faq_conn)
        (py ''How do I reset my password?'') 2 fresh_tdconn)
       = Inr [TextContent (py ''Error: '' @ py ''connection refused'')]"
    using down
    by (simp add: vector_store_best_answer_def execute_db_tool_def c
          format_error_response_text)
  moreover have "db_outcome (vector_store_best_answer toy_floatops toy_runtime unused_str_of
        (Inr fresh_tdconn) (Inr 1) search_two_hits (\<lambda>c. faq_conn)
        (py ''How do I reset my password?'') 2 fresh_tdconn)
       = Inr [TextContent (py ''Use the reset link.'')]"
    using answer_only_two_hits
    by (simp add: vector_store_best_answer_def execute_db_tool_def c
          as_pyany_def format_text_response_def json_loads_reset_link)
  ultimately show ?thesis
    using off execute_vs_tool_disabled [OF off, of toy_floatops "Inr 2" expired_tool]
    by (simp add: py_def)
qed

subsection \<open>Decoding what the encoder wrote\<close>


lemma str_nat_digits: "\<forall>c \<in> set (str_nat n). is_digit c"
proof (induction n rule: str_nat.induct)
  case (1 n)
  show ?case
  proof (cases "n < 10")
    case True
    then show ?thesis by (subst str_nat.simps) (simp add: is_digit_def)
  next
    case False
    with 1 show ?thesis by (subst str_nat.simps) (auto simp: is_digit_def)
  qed
qed

lemma str_nat_nonempty: "str_nat n \<noteq> []"
  by (subst str_nat.simps) simp

lemma digits_val_snoc: "digits_val (ds @ [c]) = 10 * digits_val ds + (c - 48)"
  by (simp add: digits_val_def)

lemma digits_val_str_nat: "digits_val (str_nat n) = n"
proof (induction n rule: str_nat.induct)
  case (1 n)
  show ?case
  proof (cases "n < 10")
    case True
    then show ?thesis by (subst str_nat.simps) (simp add: digits_val_def)
  next
    case False
    with 1 have "digits_val (str_nat (n div 10)) = n div 10" by simp
    with False show ?thesis by (subst str_nat.simps) (simp add: digits_val_snoc)
  qed
qed

lemma str_nat_first: "0 < n \<Longrightarrow> 49 \<le> hd (str_nat n) \<and> hd (str_nat n) \<le> 57"
proof (induction n rule: str_nat.induct)
  case (1 n)
  show ?case
  proof (cases "n < 10")
    case True
    with "1.prems" show ?thesis by (subst (1 2) str_nat.simps) simp
  next
    case False
    then have "0 < n div 10" by simp
    with "1.IH" False have "49 \<le> hd (str_nat (n div 10)) \<and> hd (str_nat (n div 10)) \<le> 57"
      by simp
    with False show ?thesis
      by (subst (1 2) str_nat.simps) (simp add: str_nat_nonempty)
  qed
qed

lemma str_nat_0: "str_nat 0 = [48]"
  by (subst str_nat.simps) simp

lemma takeWhile_digits_append:
  "no_digit_next rest \<Longrightarrow> takeWhile is_digit (r @ rest) = takeWhile is_digit r"
  by (induction r) (auto simp: no_digit_next_def split: list.splits)

lemma dropWhile_digits_append:
  "no_digit_next rest \<Longrightarrow> dropWhile is_digit (r @ rest) = dropWhile is_digit r @ rest"
  by (induction r) (auto simp: no_digit_next_def split: list.splits)

lemma no_number_next_digit: "no_number_next rest \<Longrightarrow> no_digit_next rest"
  by (auto simp: no_number_next_def no_digit_next_def split: list.splits)

lemma match_int_append:
  "match_int s = Some (ip, s2) \<Longrightarrow> no_number_next rest \<Longrightarrow>
     match_int (s @ rest) = Some (ip, s2 @ rest)"
  by (cases s)
     (auto simp: match_int_def takeWhile_digits_append dropWhile_digits_append
        no_number_next_digit split: if_splits)

lemma match_frac_append:
  assumes "no_number_next rest"
  shows "match_frac (s @ rest) = (fst (match_frac s), snd (match_frac s) @ rest)"
proof (cases s)
  case Nil
  with assms show ?thesis
    by (cases rest) (auto simp: match_frac_def no_number_next_def split: list.splits)
next
  case (Cons d s')
  show ?thesis
  proof (cases s')
    case Nil
    with Cons assms show ?thesis
      by (cases rest) (auto simp: match_frac_def no_number_next_def split: list.splits)
  next
    case (Cons f r)
    with \<open>s = d # s'\<close> assms show ?thesis
      by (simp add: match_frac_def takeWhile_digits_append dropWhile_digits_append
            no_number_next_digit)
  qed
qed

lemma match_exp_append:
  assumes "no_number_next rest"
  shows "match_exp (s @ rest) = (fst (match_exp s), snd (match_exp s) @ rest)"
proof (cases s)
  case Nil
  with assms show ?thesis
    by (cases rest) (auto simp: match_exp_def no_number_next_def split: list.splits)
next
  case (Cons e r)
  note s = Cons
  have nd: "takeWhile is_digit rest = []"
    using assms by (cases rest) (auto simp: no_number_next_def)
  show ?thesis
  proof (cases r)
    case Nil
    with s assms nd show ?thesis
      by (cases rest) (auto simp: match_exp_def no_number_next_def Let_def split: list.splits)
  next
    case (Cons c r')
    show ?thesis
    proof (cases "c = 45 \<or> c = 43")
      case True
      with s Cons assms show ?thesis
        by (auto simp: match_exp_def Let_def takeWhile_digits_append dropWhile_digits_append
              no_number_next_digit)
    next
      case False
      with s Cons assms show ?thesis
        using takeWhile_digits_append [of rest "c # r'"]
              dropWhile_digits_append [of rest "c # r'"]
        by (auto simp: match_exp_def Let_def no_number_next_digit)
    qed
  qed
qed

lemma match_int_parts: "match_int s = Some (ip, s2) \<Longrightarrow> s = ip @ s2"
  by (cases s) (auto simp: match_int_def split: if_splits)

lemma match_int_first:
  "match_int s = Some (ip, s2) \<Longrightarrow> \<exists>d r. s = d # r \<and> is_digit d"
  by (cases s) (auto simp: match_int_def is_digit_def split: if_splits)

lemma match_frac_parts: "match_frac s = (frac, s3) \<Longrightarrow> s = frac @ s3"
  by (auto simp: match_frac_def split: list.splits if_splits)

lemma match_exp_parts: "match_exp s = (ex, s4) \<Longrightarrow> s = ex @ s4"
proof (cases s)
  case Nil
  assume "match_exp s = (ex, s4)"
  with Nil show ?thesis by (simp add: match_exp_def)
next
  case (Cons e r)
  assume m: "match_exp s = (ex, s4)"
  show ?thesis
  proof (cases r)
    case Nil
    with Cons m show ?thesis by (auto simp: match_exp_def Let_def split: if_splits)
  next
    case (Cons c r')
    with \<open>s = e # r\<close> m show ?thesis
      using takeWhile_dropWhile_id [of is_digit r'] takeWhile_dropWhile_id [of is_digit "c # r'"]
      by (auto simp: match_exp_def Let_def split: if_splits)
  qed
qed

lemma match_number_float_literal:
  assumes lit: "float_literal t" and rest: "no_number_next rest"
  shows "match_number fl (t @ rest) = Some (JFloat (float_of_str fl t), rest)"
proof -
  define sgn where "sgn = (case t of c # r \<Rightarrow> if c = 45 then [c] else [] | [] \<Rightarrow> [])"
  define s1 where "s1 = (case t of c # r \<Rightarrow> if c = 45 then r else t | [] \<Rightarrow> t)"
  have t: "t = sgn @ s1"
    by (cases t) (auto simp: sgn_def s1_def)
  from lit obtain ip s2 where mi: "match_int s1 = Some (ip, s2)"
    by (auto simp: float_literal_def s1_def split: option.splits)
  obtain frac s3 where mf: "match_frac s2 = (frac, s3)" by (cases "match_frac s2")
  obtain ex s4 where me: "match_exp s3 = (ex, s4)" by (cases "match_exp s3")
  from lit mi mf me have fe: "frac \<noteq> [] \<or> ex \<noteq> []" and s4: "s4 = []"
    by (auto simp: float_literal_def s1_def)
  from mi obtain d r where s1: "s1 = d # r" and d: "is_digit d"
    by (auto dest: match_int_first)
  have whole: "s1 = ip @ frac @ ex"
    using match_int_parts [OF mi] match_frac_parts [OF mf] match_exp_parts [OF me] s4 by simp
  have split: "(case t @ rest of c # r \<Rightarrow> if c = 45 then ([c], r) else ([], t @ rest)
                 | [] \<Rightarrow> ([], t @ rest)) = (sgn, s1 @ rest)"
    using s1 d by (cases t) (auto simp: sgn_def s1_def is_digit_def)
  have "match_number fl (t @ rest)
          = Some (JFloat (float_of_str fl (sgn @ ip @ frac @ ex)), rest)"
    unfolding match_number_def split
    using match_int_append [OF mi rest] match_frac_append [OF rest, of s2]
          match_exp_append [OF rest, of s3] mf me fe s4
    by (simp add: Let_def)
  with t whole show ?thesis by simp
qed

lemma scan_once_number:
  assumes "is_digit c \<or> (c = 45 \<and> (\<exists>d r. cs = d # r \<and> is_digit d))"
  shows "scan_once fl (c # cs) = match_number fl (c # cs)"
  using assms by (auto simp: is_digit_def py_def)

lemma scan_once_float_literal:
  assumes lit: "float_literal t" and rest: "no_number_next rest"
  shows "scan_once fl (t @ rest) = Some (JFloat (float_of_str fl t), rest)"
proof -
  from lit obtain c cs where t: "t = c # cs"
    by (cases t) (auto simp: float_literal_def match_int_def)
  have "is_digit c \<or> (c = 45 \<and> (\<exists>d r. cs @ rest = d # r \<and> is_digit d))"
  proof (cases "c = 45")
    case True
    with lit t obtain ip s2 where "match_int cs = Some (ip, s2)"
      by (auto simp: float_literal_def split: option.splits)
    then obtain d r where "cs = d # r" "is_digit d" by (auto dest: match_int_first)
    with True show ?thesis by simp
  next
    case False
    with lit t obtain ip s2 where "match_int (c # cs) = Some (ip, s2)"
      by (auto simp: float_literal_def split: option.splits)
    then show ?thesis by (auto dest: match_int_first)
  qed
  then have "scan_once fl (c # (cs @ rest)) = match_number fl (c # (cs @ rest))"
    by (rule scan_once_number)
  with t match_number_float_literal [OF lit rest, of fl] show ?thesis by simp
qed

lemma takeWhile_all: "\<forall>c \<in> set xs. P c \<Longrightarrow> takeWhile P xs = xs"
  by (induction xs) auto

lemma dropWhile_all: "\<forall>c \<in> set xs. P c \<Longrightarrow> dropWhile P xs = []"
  by (induction xs) auto

lemma match_int_str_nat: "match_int (str_nat n) = Some (str_nat n, [])"
proof (cases "n = 0")
  case True
  then show ?thesis by (simp add: str_nat_0 match_int_def)
next
  case False
  obtain d r where dr: "str_nat n = d # r"
    using str_nat_nonempty [of n] by (cases "str_nat n") auto
  with False str_nat_first [of n] have d: "49 \<le> d \<and> d \<le> 57" by simp
  from dr str_nat_digits [of n] have "\<forall>c \<in> set r. is_digit c" by simp
  then have "takeWhile is_digit r = r" "dropWhile is_digit r = []"
    by (simp_all add: takeWhile_all dropWhile_all)
  with dr d show ?thesis by (simp add: match_int_def)
qed

lemma match_number_str_int:
  assumes rest: "no_number_next rest"
  shows "match_number fl (str_int i @ rest) = Some (JInt i, rest)"
proof -
  have nofrac: "match_frac ([] @ rest) = ([], rest)"
    using match_frac_append [OF rest, of "[]"] by (simp add: match_frac_def)
  have noexp: "match_exp ([] @ rest) = ([], rest)"
    using match_exp_append [OF rest, of "[]"] by (simp add: match_exp_def)
  have first: "hd (str_nat n) \<noteq> 45" for n
    using str_nat_digits [of n] str_nat_nonempty [of n]
    by (cases "str_nat n") (auto simp: is_digit_def)
  show ?thesis
  proof (cases "i < 0")
    case True
    then have "str_int i @ rest = 45 # (str_nat (nat (- i)) @ rest)"
      by (simp add: str_int_def)
    moreover have "match_int (str_nat (nat (- i)) @ rest) = Some (str_nat (nat (- i)), [] @ rest)"
      using match_int_append [OF match_int_str_nat rest] .
    ultimately show ?thesis
      using True nofrac noexp by (simp add: match_number_def digits_val_str_nat)
  next
    case False
    obtain d r where dr: "str_nat (nat i) = d # r"
      using str_nat_nonempty [of "nat i"] by (cases "str_nat (nat i)") auto
    with first [of "nat i"] have d: "d \<noteq> 45" by simp
    have "match_int (str_nat (nat i) @ rest) = Some (str_nat (nat i), [] @ rest)"
      using match_int_append [OF match_int_str_nat rest] .
    with False dr d nofrac noexp show ?thesis
      using digits_val_str_nat [of "nat i"]
      by (simp add: match_number_def str_int_def)
  qed
qed

lemma scan_once_str_int:
  assumes rest: "no_number_next rest"
  shows "scan_once fl (str_int i @ rest) = Some (JInt i, rest)"
proof -
  obtain c cs where ccs: "str_int i @ rest = c # cs"
    using str_nat_nonempty by (cases "str_int i @ rest") (auto simp: str_int_def split: if_splits)
  have "is_digit c \<or> (c = 45 \<and> (\<exists>d r. cs = d # r \<and> is_digit d))"
  proof (cases "i < 0")
    case True
    obtain d r where "str_nat (nat (- i)) = d # r"
      using str_nat_nonempty [of "nat (- i)"] by (cases "str_nat (nat (- i))") auto
    with True ccs str_nat_digits [of "nat (- i)"] show ?thesis
      by (auto simp: str_int_def)
  next
    case False
    obtain d r where "str_nat (nat i) = d # r"
      using str_nat_nonempty [of "nat i"] by (cases "str_nat (nat i)") auto
    with False ccs str_nat_digits [of "nat i"] show ?thesis
      by (auto simp: str_int_def)
  qed
  then have "scan_once fl (c # cs) = match_number fl (c # cs)"
    by (rule scan_once_number)
  with ccs match_number_str_int [OF rest, of fl i] show ?thesis by simp
qed

lemma hexval_hexdig: "n < 16 \<Longrightarrow> hexval (hexdig n) = Some n"
  by (auto simp: hexval_def hexdig_def)

lemma hex4_hex4_str:
  assumes "c < 32"
  shows "hex4 (hex4_str c @ r) = Some c"
proof -
  from assms have "c div 4096 = 0" "c div 256 = 0" "c div 16 < 16"
    by simp_all
  moreover have "c div 16 * 16 + c mod 16 = c"
    by simp
  ultimately show ?thesis
    by (simp add: hex4_str_def hexval_hexdig)
qed

lemma scanstring_escape_char:
  "scanstring (escape_char c @ r) = cons_chr c (scanstring r)"
proof -
  consider (named) "c = 34 \<or> c = 92 \<or> c = 10 \<or> c = 13 \<or> c = 9 \<or> c = 8 \<or> c = 12"
    | (ctrl) "\<not> (c = 34 \<or> c = 92 \<or> c = 10 \<or> c = 13 \<or> c = 9 \<or> c = 8 \<or> c = 12)" "c < 32"
    | (plain) "\<not> (c = 34 \<or> c = 92 \<or> c = 10 \<or> c = 13 \<or> c = 9 \<or> c = 8 \<or> c = 12)" "\<not> c < 32"
    by blast
  then show ?thesis
  proof cases
    case named
    then show ?thesis
      by (elim disjE) (simp_all add: escape_char_def unescape_def)
  next
    case ctrl
    then have e: "escape_char c = [92, 117] @ hex4_str c"
      by (simp add: escape_char_def)
    have h: "hex4 (hex4_str c @ r) = Some c"
      using ctrl by (intro hex4_hex4_str) simp
    have d: "drop 4 (hex4_str c @ r) = r"
      by (simp add: hex4_str_def)
    from ctrl have "\<not> is_high_surrogate c"
      by (simp add: is_high_surrogate_def)
    with e h d show ?thesis by simp
  next
    case plain
    then show ?thesis by (simp add: escape_char_def)
  qed
qed

lemma scanstring_escaped:
  "scanstring (concat (map escape_char s) @ 34 # rest) = Some (s, rest)"
proof (induction s)
  case Nil
  show ?case by simp
next
  case (Cons c s)
  then show ?case
    by (simp add: scanstring_escape_char cons_chr_def del: scanstring.simps(2))
qed

lemma scan_once_encode_basestring:
  "scan_once fl (encode_basestring s @ rest) = Some (JStr s, rest)"
  using scanstring_escaped [of s rest] by (simp add: encode_basestring_def)

lemma scanstring_encode_basestring:
  "scanstring (tl (encode_basestring s) @ rest) = Some (s, rest)"
  using scanstring_escaped [of s rest] by (simp add: encode_basestring_def)

declare parse_array.simps [simp del] parse_object.simps [simp del]

lemma term_end_no_number: "term_end rest \<Longrightarrow> no_number_next rest"
  by (auto simp: term_end_def no_number_next_def is_digit_def split: list.splits)

lemma term_start_not_ws: "term_start c \<Longrightarrow> \<not> is_ws c \<and> c \<noteq> 93 \<and> c \<noteq> 125 \<and> c \<noteq> 65279"
  by (auto simp: term_start_def is_ws_def is_digit_def)

lemma float_literal_start:
  assumes "float_literal t"
  shows "\<exists>c cs. t = c # cs \<and> (c = 45 \<or> is_digit c)"
proof (cases t)
  case Nil
  with assms show ?thesis by (simp add: float_literal_def match_int_def)
next
  case (Cons c cs)
  show ?thesis
  proof (cases "c = 45")
    case True
    with Cons show ?thesis by simp
  next
    case False
    with assms Cons obtain ip s2 where "match_int (c # cs) = Some (ip, s2)"
      by (auto simp: float_literal_def split: option.splits)
    with Cons show ?thesis by (auto dest: match_int_first)
  qed
qed

lemma floatstr_start:
  assumes "floats_ok fl"
  shows "\<exists>c cs. floatstr fl x = c # cs \<and> term_start c"
proof -
  consider (nan) "float_isnan x" | (inf) "\<not> float_isnan x" "x = float_inf"
    | (ninf) "\<not> float_isnan x" "x \<noteq> float_inf" "x = float_neg_inf"
    | (fin) "\<not> float_isnan x" "x \<noteq> float_inf" "x \<noteq> float_neg_inf"
    by blast
  then show ?thesis
  proof cases
    case nan
    then show ?thesis by (simp add: floatstr_def py_def term_start_def)
  next
    case inf
    then show ?thesis by (simp add: floatstr_def py_def term_start_def)
  next
    case ninf
    then show ?thesis by (simp add: floatstr_def py_def term_start_def)
  next
    case fin
    with assms have "float_literal (float_repr fl x)" by (simp add: floats_ok_def)
    from float_literal_start [OF this] fin show ?thesis
      by (auto simp: floatstr_def term_start_def)
  qed
qed

lemma str_int_start: "\<exists>c cs. str_int i = c # cs \<and> term_start c"
proof (cases "i < 0")
  case True
  then show ?thesis by (simp add: str_int_def term_start_def)
next
  case False
  obtain d r where "str_nat (nat i) = d # r"
    using str_nat_nonempty [of "nat i"] by (cases "str_nat (nat i)") auto
  with False str_nat_digits [of "nat i"] show ?thesis
    by (auto simp: str_int_def term_start_def)
qed

lemma iterencode_start:
  assumes "floats_ok fl"
  shows "\<exists>c cs. iterencode fl lvl j = c # cs \<and> term_start c"
proof (cases j)
  case (JFloat x)
  with floatstr_start [OF assms, of x] show ?thesis by simp
next
  case (JInt i)
  with str_int_start [of i] show ?thesis by simp
qed (auto simp: py_def term_start_def encode_basestring_def)

lemma skip_ws_newline_indent:
  "\<not> is_ws c \<Longrightarrow> skip_ws (newline_indent lvl @ c # r) = c # r"
  by (simp add: skip_ws_def newline_indent_def is_ws_def dropWhile_append3)

lemma skip_ws_start: "\<not> is_ws c \<Longrightarrow> skip_ws (c # r) = c # r"
  by (simp add: skip_ws_def)

declare scan_once.simps [simp del]

lemma join_items_Cons:
  "xs \<noteq> [] \<Longrightarrow> join_items sep (x # xs) = x @ sep @ join_items sep xs"
  by (cases xs) simp_all

lemma term_end_newline_indent: "term_end (newline_indent lvl @ r)"
  by (simp add: term_end_def newline_indent_def)

lemma term_end_comma: "term_end (44 # r)"
  by (simp add: term_end_def)

lemma join_items_start:
  assumes "floats_ok fl" and "xs \<noteq> []"
  shows "\<exists>c cs. join_items sep (map (iterencode fl lvl) xs) = c # cs \<and> term_start c"
proof -
  from assms(2) obtain x xs' where xs: "xs = x # xs'" by (cases xs) auto
  obtain c cs where "iterencode fl lvl x = c # cs" "term_start c"
    using iterencode_start [OF assms(1)] by blast
  with xs show ?thesis by (cases xs') auto
qed

lemma parse_array_items:
  assumes fl: "floats_ok fl"
    and ne: "xs \<noteq> []"
    and items: "\<And>x rest'. x \<in> set xs \<Longrightarrow> term_end rest' \<Longrightarrow>
        scan_once fl (iterencode fl (Suc lvl) x @ rest') = Some (x, rest')"
  shows "parse_array fl acc
           (join_items (44 # newline_indent (Suc lvl)) (map (iterencode fl (Suc lvl)) xs)
              @ newline_indent lvl @ 93 # rest)
         = Some (JArr (acc @ xs), rest)"
  using ne items
proof (induction xs arbitrary: acc rule: list_nonempty_induct)
  case (single x)
  let ?r = "newline_indent lvl @ 93 # rest"
  have sc: "scan_once fl (iterencode fl (Suc lvl) x @ ?r) = Some (x, ?r)"
    using single term_end_newline_indent by simp
  obtain c cs where enc: "iterencode fl (Suc lvl) x = c # cs"
    using iterencode_start [OF fl] by blast
  have sk: "skip_ws ?r = 93 # rest"
    by (rule skip_ws_newline_indent) (simp add: is_ws_def)
  have len: "iterencode fl (Suc lvl) x \<noteq> []"
    by (simp add: enc)
  have "parse_array fl acc (iterencode fl (Suc lvl) x @ ?r) = Some (JArr (acc @ [x]), rest)"
    by (subst parse_array.simps) (simp add: sc sk len)
  then show ?case by simp
next
  case (cons x xs)
  let ?sep = "44 # newline_indent (Suc lvl)"
  let ?tail = "join_items ?sep (map (iterencode fl (Suc lvl)) xs) @ newline_indent lvl @ 93 # rest"
  let ?r = "44 # newline_indent (Suc lvl) @ ?tail"
  have sc: "scan_once fl (iterencode fl (Suc lvl) x @ ?r) = Some (x, ?r)"
    using cons.prems term_end_comma by simp
  obtain c cs where enc: "iterencode fl (Suc lvl) x = c # cs"
    using iterencode_start [OF fl] by blast
  obtain d ds where nxt: "join_items ?sep (map (iterencode fl (Suc lvl)) xs) = d # ds"
    and d: "term_start d"
    using join_items_start [OF fl cons.hyps(1)] by blast
  have sk1: "skip_ws ?r = ?r"
    by (simp add: skip_ws_def is_ws_def)
  have sk2: "skip_ws (newline_indent (Suc lvl) @ ?tail) = ?tail"
    using skip_ws_newline_indent [of d "Suc lvl" "ds @ newline_indent lvl @ 93 # rest"]
          term_start_not_ws [OF d] nxt by simp
  have IH: "parse_array fl (acc @ [x]) ?tail = Some (JArr ((acc @ [x]) @ xs), rest)"
    using cons.IH [of "acc @ [x]"] cons.prems by simp
  have len: "iterencode fl (Suc lvl) x \<noteq> []"
    by (simp add: enc)
  have "parse_array fl acc (iterencode fl (Suc lvl) x @ ?r) = Some (JArr (acc @ x # xs), rest)"
    by (subst parse_array.simps) (simp add: sc sk1 sk2 len IH)
  moreover have "join_items ?sep (map (iterencode fl (Suc lvl)) (x # xs))
                   @ newline_indent lvl @ 93 # rest = iterencode fl (Suc lvl) x @ ?r"
    using cons.hyps(1) by (simp add: join_items_Cons)
  ultimately show ?case by simp
qed

lemma encode_item_start: "\<exists>cs. encode_item fl lvl kv = 34 # cs"
  by (simp add: encode_item_def encode_basestring_def)

lemma join_encode_items_start:
  "kvs \<noteq> [] \<Longrightarrow> \<exists>cs. join_items sep (map (encode_item fl lvl) kvs) = 34 # cs"
proof (cases kvs)
  case Nil
  assume "kvs \<noteq> []"
  with Nil show ?thesis by simp
next
  case (Cons kv kvs')
  obtain cs where "encode_item fl lvl kv = 34 # cs"
    using encode_item_start by blast
  with Cons show ?thesis by (cases kvs') auto
qed

text \<open>One key and its value, read by \<open>parse_object\<close> in front of what follows the item.\<close>

lemma parse_object_step:
  assumes fl: "floats_ok fl"
    and v: "scan_once fl (iterencode fl lvl (snd kv) @ r) = Some (snd kv, r)"
  shows "parse_object fl acc (encode_item fl lvl kv @ r)
         = (case skip_ws r of
              [] \<Rightarrow> None
            | d # r3 \<Rightarrow>
                if d = 125 then Some (JObj (dict_set acc (fst kv) (snd kv)), r3)
                else if d = 44 then parse_object fl (dict_set acc (fst kv) (snd kv)) (skip_ws r3)
                else None)"
proof -
  obtain c cs where enc: "iterencode fl lvl (snd kv) = c # cs" and c: "term_start c"
    using iterencode_start [OF fl] by blast
  let ?after = "58 # 32 # c # cs @ r"
  have s: "encode_item fl lvl kv @ r = 34 # (concat (map escape_char (fst kv)) @ 34 # ?after)"
    by (simp add: encode_item_def encode_basestring_def py_def enc)
  have key: "scanstring (concat (map escape_char (fst kv)) @ 34 # ?after) = Some (fst kv, ?after)"
    by (rule scanstring_escaped)
  have colon: "skip_ws ?after = ?after"
    by (simp add: skip_ws_def is_ws_def)
  have val: "skip_ws (32 # c # cs @ r) = c # cs @ r"
    using term_start_not_ws [OF c] by (simp add: skip_ws_def is_ws_def)
  have v': "scan_once fl (c # cs @ r) = Some (snd kv, r)"
    using v enc by simp
  show ?thesis
    unfolding s
    by (subst parse_object.simps) (simp add: key colon val v')
qed

lemma parse_object_items:
  assumes fl: "floats_ok fl"
    and ne: "kvs \<noteq> []"
    and items: "\<And>kv rest'. kv \<in> set kvs \<Longrightarrow> term_end rest' \<Longrightarrow>
        scan_once fl (iterencode fl (Suc lvl) (snd kv) @ rest') = Some (snd kv, rest')"
  shows "parse_object fl acc
           (join_items (44 # newline_indent (Suc lvl)) (map (encode_item fl (Suc lvl)) kvs)
              @ newline_indent lvl @ 125 # rest)
         = Some (JObj (foldl (\<lambda>a kv. dict_set a (fst kv) (snd kv)) acc kvs), rest)"
  using ne items
proof (induction kvs arbitrary: acc rule: list_nonempty_induct)
  case (single kv)
  let ?r = "newline_indent lvl @ 125 # rest"
  have sc: "scan_once fl (iterencode fl (Suc lvl) (snd kv) @ ?r) = Some (snd kv, ?r)"
    using single term_end_newline_indent by simp
  have sk: "skip_ws ?r = 125 # rest"
    by (rule skip_ws_newline_indent) (simp add: is_ws_def)
  show ?case
    using parse_object_step [OF fl sc, of acc] by (simp add: sk)
next
  case (cons kv kvs)
  let ?sep = "44 # newline_indent (Suc lvl)"
  let ?tail = "join_items ?sep (map (encode_item fl (Suc lvl)) kvs) @ newline_indent lvl @ 125 # rest"
  let ?r = "44 # newline_indent (Suc lvl) @ ?tail"
  have sc: "scan_once fl (iterencode fl (Suc lvl) (snd kv) @ ?r) = Some (snd kv, ?r)"
    using cons.prems term_end_comma by simp
  obtain ds where nxt: "join_items ?sep (map (encode_item fl (Suc lvl)) kvs) = 34 # ds"
    using join_encode_items_start [OF cons.hyps(1)] by blast
  have sk1: "skip_ws ?r = ?r"
    by (simp add: skip_ws_def is_ws_def)
  have sk2: "skip_ws (newline_indent (Suc lvl) @ ?tail) = ?tail"
    using skip_ws_newline_indent [of 34 "Suc lvl" "ds @ newline_indent lvl @ 125 # rest"] nxt
    by (simp add: is_ws_def)
  have IH: "parse_object fl (dict_set acc (fst kv) (snd kv)) ?tail
              = Some (JObj (foldl (\<lambda>a kv. dict_set a (fst kv) (snd kv))
                              (dict_set acc (fst kv) (snd kv)) kvs), rest)"
    using cons.IH [of "dict_set acc (fst kv) (snd kv)"] cons.prems by simp
  have "parse_object fl acc (encode_item fl (Suc lvl) kv @ ?r)
          = Some (JObj (foldl (\<lambda>a kv. dict_set a (fst kv) (snd kv)) acc (kv # kvs)), rest)"
    using parse_object_step [OF fl sc, of acc] IH by (simp add: sk1 sk2)
  moreover have "join_items ?sep (map (encode_item fl (Suc lvl)) (kv # kvs))
                   @ newline_indent lvl @ 125 # rest = encode_item fl (Suc lvl) kv @ ?r"
    using cons.hyps(1) by (simp add: join_items_Cons)
  ultimately show ?case by simp
qed

lemma dict_set_fresh: "k \<notin> fst ` set acc \<Longrightarrow> dict_set acc k v = acc @ [(k, v)]"
  by (induction acc) auto

lemma foldl_dict_set_distinct:
  "distinct (map fst (acc @ kvs)) \<Longrightarrow>
     foldl (\<lambda>a kv. dict_set a (fst kv) (snd kv)) acc kvs = acc @ kvs"
proof (induction kvs arbitrary: acc)
  case Nil
  show ?case by simp
next
  case (Cons kv kvs)
  from Cons.prems have fresh: "fst kv \<notin> fst ` set acc" by auto
  from Cons.prems have "distinct (map fst ((acc @ [kv]) @ kvs))" by simp
  from Cons.IH [OF this] fresh show ?case
    by (simp add: dict_set_fresh)
qed

lemma scan_once_floatstr:
  assumes fl: "floats_ok fl" and wf: "json_wf (JFloat x)" and rest: "term_end rest"
  shows "scan_once fl (floatstr fl x @ rest) = Some (JFloat x, rest)"
proof -
  consider (nan) "float_isnan x" | (inf) "\<not> float_isnan x" "x = float_inf"
    | (ninf) "\<not> float_isnan x" "x \<noteq> float_inf" "x = float_neg_inf"
    | (fin) "\<not> float_isnan x" "x \<noteq> float_inf" "x \<noteq> float_neg_inf"
    by blast
  then show ?thesis
  proof cases
    case nan
    with wf have "x = float_nan" by simp
    with nan show ?thesis by (simp add: floatstr_def py_def scan_once.simps)
  next
    case inf
    then show ?thesis by (simp add: floatstr_def py_def scan_once.simps)
  next
    case ninf
    then show ?thesis by (simp add: floatstr_def py_def scan_once.simps)
  next
    case fin
    with fl have lit: "float_literal (float_repr fl x)"
      and again: "float_of_str fl (float_repr fl x) = x"
      by (simp_all add: floats_ok_def)
    from fin have "floatstr fl x = float_repr fl x" by (simp add: floatstr_def)
    with scan_once_float_literal [OF lit term_end_no_number [OF rest], of fl] again
    show ?thesis by simp
  qed
qed

lemma scan_once_empty_array: "scan_once fl (py ''[]'' @ rest) = Some (JArr [], rest)"
  by (simp add: py_def scan_once.simps skip_ws_def is_ws_def)

lemma scan_once_empty_object: "scan_once fl (py ''{}'' @ rest) = Some (JObj [], rest)"
  by (simp add: py_def scan_once.simps skip_ws_def is_ws_def)

lemma scan_once_array:
  assumes "skip_ws cs = d # r" and "d \<noteq> 93"
  shows "scan_once fl (91 # cs) = parse_array fl [] (d # r)"
  using assms by (simp add: scan_once.simps)

lemma scan_once_object:
  assumes "skip_ws cs = d # r" and "d \<noteq> 125"
  shows "scan_once fl (123 # cs) = parse_object fl [] (d # r)"
  using assms by (simp add: scan_once.simps)

theorem scan_once_iterencode:
  assumes fl: "floats_ok fl"
  shows "json_wf j \<Longrightarrow> term_end rest \<Longrightarrow>
           scan_once fl (iterencode fl lvl j @ rest) = Some (j, rest)"
proof (induction j arbitrary: lvl rest)
  case JNull
  show ?case by (simp add: py_def scan_once.simps)
next
  case (JBool b)
  show ?case by (cases b) (simp_all add: py_def scan_once.simps)
next
  case (JInt i)
  then show ?case
    using scan_once_str_int [OF term_end_no_number, of rest fl i] by simp
next
  case (JFloat x)
  then show ?case
    using scan_once_floatstr [OF fl, of x rest] by simp
next
  case (JStr s)
  show ?case by (simp add: scan_once_encode_basestring)
next
  case (JArr xs)
  show ?case
  proof (cases "xs = []")
    case True
    then show ?thesis by (simp add: scan_once_empty_array)
  next
    case False
    let ?sep = "44 # newline_indent (Suc lvl)"
    let ?items = "join_items ?sep (map (iterencode fl (Suc lvl)) xs)"
    have items: "scan_once fl (iterencode fl (Suc lvl) x @ rest') = Some (x, rest')"
      if "x \<in> set xs" "term_end rest'" for x rest'
      using JArr.IH [OF that(1) _ that(2)] JArr.prems(1) that(1)
      by (simp add: list_all_iff)
    obtain d ds where nxt: "?items = d # ds" and d: "term_start d"
      using join_items_start [OF fl False] by blast
    have sk: "skip_ws (newline_indent (Suc lvl) @ ?items @ newline_indent lvl @ 93 # rest)
                = d # (ds @ newline_indent lvl @ 93 # rest)"
      using skip_ws_newline_indent [of d "Suc lvl" "ds @ newline_indent lvl @ 93 # rest"]
            term_start_not_ws [OF d] nxt by simp
    have "scan_once fl (91 # newline_indent (Suc lvl) @ ?items @ newline_indent lvl @ 93 # rest)
            = parse_array fl [] (d # (ds @ newline_indent lvl @ 93 # rest))"
      using sk term_start_not_ws [OF d] by (intro scan_once_array) simp_all
    also have "\<dots> = parse_array fl [] (?items @ newline_indent lvl @ 93 # rest)"
      using nxt by simp
    also have "\<dots> = Some (JArr ([] @ xs), rest)"
      using items by (intro parse_array_items [OF fl False]) simp_all
    finally show ?thesis using False by simp
  qed
next
  case (JObj kvs)
  show ?case
  proof (cases "kvs = []")
    case True
    then show ?thesis by (simp add: scan_once_empty_object)
  next
    case False
    let ?sep = "44 # newline_indent (Suc lvl)"
    let ?items = "join_items ?sep (map (encode_item fl (Suc lvl)) kvs)"
    have enc: "iterencode fl lvl (JObj kvs)
                 = 123 # newline_indent (Suc lvl) @ ?items @ newline_indent lvl @ [125]"
      using False by (simp add: encode_item_def [abs_def])
    have items: "scan_once fl (iterencode fl (Suc lvl) (snd kv) @ rest') = Some (snd kv, rest')"
      if "kv \<in> set kvs" "term_end rest'" for kv rest'
    proof -
      have "snd kv \<in> Basic_BNFs.snds kv"
        by (cases kv) simp
      moreover from JObj.prems(1) that(1) have "json_wf (snd kv)"
        by (simp add: list_all_iff)
      ultimately show ?thesis
        using JObj.IH [OF that(1) _ _ that(2)] by blast
    qed
    obtain ds where nxt: "?items = 34 # ds"
      using join_encode_items_start [OF False] by blast
    have sk: "skip_ws (newline_indent (Suc lvl) @ ?items @ newline_indent lvl @ 125 # rest)
                = 34 # (ds @ newline_indent lvl @ 125 # rest)"
      using skip_ws_newline_indent [of 34 "Suc lvl" "ds @ newline_indent lvl @ 125 # rest"] nxt
      by (simp add: is_ws_def)
    have "scan_once fl (123 # newline_indent (Suc lvl) @ ?items @ newline_indent lvl @ 125 # rest)
            = parse_object fl [] (34 # (ds @ newline_indent lvl @ 125 # rest))"
      using sk by (intro scan_once_object) simp_all
    also have "\<dots> = parse_object fl [] (?items @ newline_indent lvl @ 125 # rest)"
      using nxt by simp
    also have "\<dots> = Some (JObj (foldl (\<lambda>a kv. dict_set a (fst kv) (snd kv)) [] kvs), rest)"
      using items by (intro parse_object_items [OF fl False]) simp_all
    also have "foldl (\<lambda>a kv. dict_set a (fst kv) (snd kv)) [] kvs = kvs"
      using foldl_dict_set_distinct [of "[]" kvs] JObj.prems(1) by simp
    finally show ?thesis using enc by simp
  qed
qed

lemma json_loads_json_dumps:
  assumes fl: "floats_ok fl" and wf: "json_wf j"
  shows "json_loads fl (json_dumps fl j) = Some j"
proof -
  obtain c cs where enc: "iterencode fl 0 j = c # cs" and c: "term_start c"
    using iterencode_start [OF fl] by blast
  have sc: "scan_once fl (iterencode fl 0 j @ []) = Some (j, [])"
    using scan_once_iterencode [OF fl wf, of "[]" 0] by (simp add: term_end_def)
  have sk: "skip_ws (c # cs) = c # cs"
    using term_start_not_ws [OF c] by (simp add: skip_ws_def)
  from sc enc have "scan_once fl (c # cs) = Some (j, [])" by simp
  with sk term_start_not_ws [OF c] show ?thesis
    by (simp add: json_loads_def json_dumps_def enc skip_ws_def)
qed

lemma cons_chr_Some: "cons_chr c x = Some (s, r) \<Longrightarrow> \<exists>s'. x = Some (s', r)"
  by (auto simp: cons_chr_def split: option.splits)

lemma scanstring_shorter: "scanstring s = Some (k, r) \<Longrightarrow> length r < length s"
proof (induction s arbitrary: k rule: scanstring.induct)
  case 1
  then show ?case by simp
next
  case (2 c cs)
  show ?case
  proof (cases "c = 34")
    case True
    with "2.prems" show ?thesis by simp
  next
    case False
    show ?thesis
      using "2.prems" "2.IH" False
      by (auto split: if_splits list.splits option.splits dest!: cons_chr_Some)
         (fastforce+)?
  qed
qed

lemma match_int_nonempty: "match_int s = Some (ip, s2) \<Longrightarrow> ip \<noteq> []"
  by (cases s) (auto simp: match_int_def split: if_splits)

lemma match_number_wf:
  assumes m: "match_number fl s = Some (j, r)"
  shows "(floats_ok fl \<longrightarrow> json_wf j) \<and> length r < length s"
proof -
  define sgn where "sgn = (case s of c # r \<Rightarrow> if c = 45 then [c] else [] | [] \<Rightarrow> [])"
  define s1 where "s1 = (case s of c # r \<Rightarrow> if c = 45 then r else s | [] \<Rightarrow> s)"
  have s: "s = sgn @ s1"
    by (cases s) (auto simp: sgn_def s1_def)
  have split: "(case s of c # r \<Rightarrow> if c = 45 then ([c], r) else ([], s) | [] \<Rightarrow> ([], s))
                 = (sgn, s1)"
    by (cases s) (auto simp: sgn_def s1_def)
  from m obtain ip s2 where mi: "match_int s1 = Some (ip, s2)"
    unfolding match_number_def split by (auto split: option.splits)
  obtain frac s3 where mf: "match_frac s2 = (frac, s3)" by (cases "match_frac s2")
  obtain ex s4 where me: "match_exp s3 = (ex, s4)" by (cases "match_exp s3")
  from m mi mf me have r: "r = s4"
    and j: "j = (if frac \<noteq> [] \<or> ex \<noteq> []
                 then JFloat (float_of_str fl (sgn @ ip @ frac @ ex))
                 else JInt (if sgn = [] then int (digits_val ip) else - int (digits_val ip)))"
    unfolding match_number_def split by (auto split: if_splits)
  have "s1 = ip @ frac @ ex @ s4"
    using match_int_parts [OF mi] match_frac_parts [OF mf] match_exp_parts [OF me] by simp
  with s r match_int_nonempty [OF mi] have "length r < length s" by simp
  moreover from j have "floats_ok fl \<longrightarrow> json_wf j" by (simp add: floats_ok_def)
  ultimately show ?thesis by simp
qed

lemma skip_ws_length: "length (skip_ws s) \<le> length s"
  by (simp add: skip_ws_def length_dropWhile_le)

lemma scan_once_atom:
  assumes c: "c \<noteq> 34" "c \<noteq> 123" "c \<noteq> 91"
    and sc: "scan_once fl (c # cs) = Some (j, r)"
  shows "(floats_ok fl \<longrightarrow> json_wf j) \<and> length r < length (c # cs)"
proof -
  from sc c have "(j = JNull \<and> r = drop 3 cs) \<or> (\<exists>b. j = JBool b \<and> (r = drop 3 cs \<or> r = drop 4 cs))
      \<or> (j = JFloat float_nan \<and> r = drop 2 cs) \<or> (j = JFloat float_inf \<and> r = drop 7 cs)
      \<or> (j = JFloat float_neg_inf \<and> r = drop 8 cs)
      \<or> match_number fl (c # cs) = Some (j, r)"
    by (auto simp: scan_once.simps split: if_splits)
  moreover have "\<not> float_isnan float_inf" "\<not> float_isnan float_neg_inf"
    by (simp_all add: float_isnan_def float_inf_def float_neg_inf_def)
  ultimately show ?thesis
    using match_number_wf [of fl "c # cs" j r] by auto
qed

lemma dict_set_keys:
  "map fst (dict_set acc k v) = (if k \<in> fst ` set acc then map fst acc else map fst acc @ [k])"
  by (induction acc) force+

lemma dict_set_distinct: "distinct (map fst acc) \<Longrightarrow> distinct (map fst (dict_set acc k v))"
  by (auto simp: dict_set_keys)

lemma dict_set_wf:
  "list_all (\<lambda>kv. json_wf (snd kv)) acc \<Longrightarrow> json_wf v \<Longrightarrow>
     list_all (\<lambda>kv. json_wf (snd kv)) (dict_set acc k v)"
  by (induction acc) auto

lemma skip_ws_Cons_shorter: "skip_ws s = d # r \<Longrightarrow> length r < length s"
  using skip_ws_length [of s] by simp

lemma scan_once_parsed:
  "scan_once fl s = Some (j, r) \<Longrightarrow> (floats_ok fl \<longrightarrow> json_wf j) \<and> length r < length s"
  "parse_array fl acc s = Some (j, r) \<Longrightarrow>
     (floats_ok fl \<and> list_all json_wf acc \<longrightarrow> json_wf j) \<and> length r < length s"
  "parse_object fl kacc s = Some (j, r) \<Longrightarrow>
     (floats_ok fl \<and> distinct (map fst kacc) \<and> list_all (\<lambda>kv. json_wf (snd kv)) kacc
        \<longrightarrow> json_wf j)
     \<and> length r < length s"
proof (induction fl s and fl acc s and fl kacc s arbitrary: j r and j r and j r
        rule: scan_once_parse_array_parse_object.induct)
  case (1 fl)
  then show ?case by (simp add: scan_once.simps)
next
  case (2 fl c cs)
  note sc = \<open>scan_once fl (c # cs) = Some (j, r)\<close>
  consider (str) "c = 34" | (obj) "c = 123" | (arr) "c = 91"
    | (atom) "c \<noteq> 34" "c \<noteq> 123" "c \<noteq> 91"
    by blast
  then show ?case
  proof cases
    case str
    with sc obtain s where "scanstring cs = Some (s, r)" "j = JStr s"
      by (auto simp: scan_once.simps split: option.splits)
    with scanstring_shorter [of cs s r] show ?thesis by simp
  next
    case obj
    show ?thesis
    proof (cases "skip_ws cs")
      case Nil
      with sc obj have "parse_object fl [] [] = Some (j, r)"
        by (simp add: scan_once.simps)
      then show ?thesis by (simp add: parse_object.simps)
    next
      case (Cons d r')
      show ?thesis
      proof (cases "d = 125")
        case True
        with sc obj Cons have "j = JObj []" "r = r'"
          by (simp_all add: scan_once.simps)
        with skip_ws_Cons_shorter [OF Cons] show ?thesis by simp
      next
        case False
        with sc obj Cons have po: "parse_object fl [] (d # r') = Some (j, r)"
          by (simp add: scan_once.simps)
        from "2.IH"(2) [OF _ obj Cons False po] obj
        have "floats_ok fl \<longrightarrow> json_wf j" "length r < length (d # r')" by simp_all
        with skip_ws_length [of cs] Cons show ?thesis by simp
      qed
    qed
  next
    case arr
    show ?thesis
    proof (cases "skip_ws cs")
      case Nil
      with sc arr have "parse_array fl [] [] = Some (j, r)"
        by (simp add: scan_once.simps)
      then show ?thesis by (simp add: parse_array.simps scan_once.simps)
    next
      case (Cons d r')
      show ?thesis
      proof (cases "d = 93")
        case True
        with sc arr Cons have "j = JArr []" "r = r'"
          by (simp_all add: scan_once.simps)
        with skip_ws_Cons_shorter [OF Cons] show ?thesis by simp
      next
        case False
        with sc arr Cons have pa: "parse_array fl [] (d # r') = Some (j, r)"
          by (simp add: scan_once.simps)
        from "2.IH"(4) [OF _ _ arr Cons False pa] arr
        have "floats_ok fl \<longrightarrow> json_wf j" "length r < length (d # r')" by simp_all
        with skip_ws_length [of cs] Cons show ?thesis by simp
      qed
    qed
  next
    case atom
    from scan_once_atom [OF atom sc] show ?thesis .
  qed
next
  case (3 fl acc s)
  note pa = \<open>parse_array fl acc s = Some (j, r)\<close>
  from pa obtain v r1 where sc: "scan_once fl s = Some (v, r1)"
    by (subst (asm) parse_array.simps) (auto split: option.splits)
  from "3.IH"(1) [OF sc] have v: "floats_ok fl \<longrightarrow> json_wf v" and len: "length r1 < length s"
    by simp_all
  from pa sc len obtain d r2 where sk: "skip_ws r1 = d # r2"
    by (subst (asm) parse_array.simps) (auto split: list.splits)
  have r2: "length r2 < length s"
    using skip_ws_Cons_shorter [OF sk] len by simp
  show ?case
  proof (cases "d = 93")
    case True
    with pa sc len sk have "j = JArr (acc @ [v])" "r = r2"
      by (subst (asm) parse_array.simps, simp)+
    with v r2 show ?thesis by simp
  next
    case False
    with pa sc len sk have d: "d = 44"
      and rec: "parse_array fl (acc @ [v]) (skip_ws r2) = Some (j, r)"
      by (subst (asm) parse_array.simps, simp split: if_splits)+
    from "3.IH"(2) [OF sc refl len sk False d rec]
    have "floats_ok fl \<and> list_all json_wf (acc @ [v]) \<longrightarrow> json_wf j"
      and "length r < length (skip_ws r2)"
      by simp_all
    with v r2 skip_ws_length [of r2] show ?thesis by simp
  qed
next
  case (4 fl kacc s)
  note po = \<open>parse_object fl kacc s = Some (j, r)\<close>
  from po obtain s1 where s: "s = 34 # s1"
    by (subst (asm) parse_object.simps) (auto split: list.splits if_splits)
  from po s obtain k r0 where key: "scanstring s1 = Some (k, r0)"
    by (subst (asm) parse_object.simps) (auto split: option.splits)
  from po s key obtain r1 where colon: "skip_ws r0 = 58 # r1"
    by (subst (asm) parse_object.simps) (auto split: list.splits if_splits)
  from po s key colon have g1: "length (skip_ws r1) < length s"
    by (subst (asm) parse_object.simps) (auto split: if_splits)
  from po s key colon g1 obtain v r2 where sc: "scan_once fl (skip_ws r1) = Some (v, r2)"
    by (subst (asm) parse_object.simps) (auto split: option.splits)
  from "4.IH"(1) [OF s _ key refl colon _ g1 sc]
  have v: "floats_ok fl \<longrightarrow> json_wf v" and g2: "length r2 < length (skip_ws r1)"
    by simp_all
  from po s key colon g1 sc g2 obtain d r3 where sk: "skip_ws r2 = d # r3"
    by (subst (asm) parse_object.simps) (auto split: list.splits)
  have r3: "length r3 < length s"
    using skip_ws_Cons_shorter [OF sk] g1 g2 by simp
  show ?case
  proof (cases "d = 125")
    case True
    with po s key colon g1 sc g2 sk have "j = JObj (dict_set kacc k v)" "r = r3"
      by (subst (asm) parse_object.simps, simp)+
    with v r3 show ?thesis by (simp add: dict_set_distinct dict_set_wf)
  next
    case False
    with po s key colon g1 sc g2 sk have d: "d = 44"
      and rec: "parse_object fl (dict_set kacc k v) (skip_ws r3) = Some (j, r)"
      by (subst (asm) parse_object.simps, simp split: if_splits)+
    from "4.IH"(2) [OF s _ key refl colon _ g1 sc refl g2 sk False d rec]
    have "floats_ok fl \<and> distinct (map fst (dict_set kacc k v))
            \<and> list_all (\<lambda>kv. json_wf (snd kv)) (dict_set kacc k v) \<longrightarrow> json_wf j"
      and "length r < length (skip_ws r3)"
      by simp_all
    with v r3 skip_ws_length [of r3] show ?thesis
      by (simp add: dict_set_distinct dict_set_wf)
  qed
qed

text \<open>
  The length tests in \<open>parse_array\<close> and \<open>parse_object\<close> never fail: both loops
  satisfy the equations without them.
\<close>

lemma parse_array_unguarded:
  "parse_array fl acc s =
     (case scan_once fl s of
        None \<Rightarrow> None
      | Some (v, r) \<Rightarrow>
          (case skip_ws r of
             [] \<Rightarrow> None
           | d # r2 \<Rightarrow>
               if d = 93 then Some (JArr (acc @ [v]), r2)
               else if d = 44 then parse_array fl (acc @ [v]) (skip_ws r2)
               else None))"
proof (cases "scan_once fl s")
  case None
  then show ?thesis by (subst parse_array.simps) simp
next
  case (Some vr)
  obtain v r where vr: "vr = (v, r)" by (cases vr)
  with Some scan_once_parsed(1) [of fl s v r] have "length r < length s" by simp
  with Some vr show ?thesis by (subst parse_array.simps) simp
qed

lemma parse_object_unguarded:
  "parse_object fl acc s =
     (case s of
        [] \<Rightarrow> None
      | q # s1 \<Rightarrow>
          if q \<noteq> 34 then None
          else
            (case scanstring s1 of
               None \<Rightarrow> None
             | Some (k, r) \<Rightarrow>
                 (case skip_ws r of
                    [] \<Rightarrow> None
                  | col # r1 \<Rightarrow>
                      if col \<noteq> 58 then None
                      else
                        (case scan_once fl (skip_ws r1) of
                           None \<Rightarrow> None
                         | Some (v, r2) \<Rightarrow>
                             (case skip_ws r2 of
                                [] \<Rightarrow> None
                              | d # r3 \<Rightarrow>
                                  if d = 125 then Some (JObj (dict_set acc k v), r3)
                                  else if d = 44
                                  then parse_object fl (dict_set acc k v) (skip_ws r3)
                                  else None)))))"
proof -
  have g1: "length (skip_ws r1) < length (q # s1)"
    if "scanstring s1 = Some (k, r)" "skip_ws r = col # r1" for q s1 k r col r1
    using scanstring_shorter [OF that(1)] skip_ws_Cons_shorter [OF that(2)]
          skip_ws_length [of r1] by simp
  have g2: "length r2 < length t" if "scan_once fl t = Some (v, r2)" for t v r2
    using scan_once_parsed(1) [OF that] by simp
  show ?thesis
    by (subst parse_object.simps)
       (auto split: list.splits option.splits dest: g1 g2)
qed

lemma json_loads_wf:
  assumes fl: "floats_ok fl" and l: "json_loads fl s = Some j"
  shows "json_wf j"
proof -
  from l obtain r where "scan_once fl (skip_ws s) = Some (j, r)"
    by (auto simp: json_loads_def split: list.splits if_splits option.splits)
  from scan_once_parsed(1) [OF this] fl show ?thesis by simp
qed

text \<open>
  Claim C6. With float conversions that round-trip (\<open>floats_ok\<close>): when the text of a
  string value parses as JSON, \<open>format_text_response\<close> returns the pretty-printed
  document, and that text parses back to the same structure; when the text does not parse,
  the payload is the original string, unchanged.
\<close>

theorem format_text_response_round_trip:
  "floats_ok fl \<longrightarrow>
     (json_loads fl s = Some j \<longrightarrow>
        format_text_response fl (PyStr s) = [TextContent (json_dumps fl j)]
        \<and> json_loads fl (json_dumps fl j) = Some j)
     \<and> (json_loads fl s = None \<longrightarrow> format_text_response fl (PyStr s) = [TextContent s])"
proof (intro impI conjI)
  assume "json_loads fl s = Some j"
  then show "format_text_response fl (PyStr s) = [TextContent (json_dumps fl j)]"
    by (simp add: format_text_response_def)
next
  assume "floats_ok fl" and "json_loads fl s = Some j"
  then show "json_loads fl (json_dumps fl j) = Some j"
    by (intro json_loads_json_dumps json_loads_wf)
next
  assume "json_loads fl s = None"
  then show "format_text_response fl (PyStr s) = [TextContent s]"
    by (simp add: format_text_response_def)
qed

lemma match_int_append_digits:
  "match_int s = Some (ip, s2) \<Longrightarrow> no_digit_next rest \<Longrightarrow>
     match_int (s @ rest) = Some (ip, s2 @ rest)"
  by (cases s)
     (auto simp: match_int_def takeWhile_digits_append dropWhile_digits_append split: if_splits)

lemma float_isnan_0: "\<not> float_isnan 0"
  by (simp add: float_isnan_def)

lemma toy_floatops_ok: "floats_ok toy_floatops"
proof -
  have nd: "no_digit_next [46, 48]"
    by (simp add: no_digit_next_def is_digit_def)
  have never_nan: "\<not> float_isnan (toy_float_of_str s)" for s
    by (simp add: toy_float_of_str_def float_isnan_0)
  have lit: "float_literal (toy_float_repr x)" for x
  proof -
    obtain d r where dr: "str_nat (unat x) = d # r"
      using str_nat_nonempty [of "unat x"] by (cases "str_nat (unat x)") auto
    with str_nat_digits [of "unat x"] have d: "d \<noteq> 45"
      by (auto simp: is_digit_def)
    have "match_int (str_nat (unat x) @ [46, 48]) = Some (str_nat (unat x), [] @ [46, 48])"
      by (rule match_int_append_digits [OF match_int_str_nat nd])
    moreover have "match_frac [46, 48] = ([46, 48], [])"
      by (simp add: match_frac_def is_digit_def)
    moreover have "match_exp [] = ([], [])"
      by (simp add: match_exp_def)
    ultimately show ?thesis
      using dr d by (simp add: float_literal_def toy_float_repr_def py_def)
  qed
  have again: "toy_float_of_str (toy_float_repr x) = x" if "\<not> float_isnan x" for x
  proof -
    have "takeWhile is_digit (str_nat (unat x) @ [46, 48]) = str_nat (unat x)"
      using takeWhile_digits_append [OF nd, of "str_nat (unat x)"]
            takeWhile_all [of "str_nat (unat x)" is_digit] str_nat_digits [of "unat x"]
      by simp
    with that show ?thesis
      by (simp add: toy_float_of_str_def toy_float_repr_def py_def digits_val_str_nat)
  qed
  show ?thesis
    using never_nan lit again
    by (simp add: floats_ok_def toy_floatops_def)
qed

theorem format_text_response_round_trip_witness:
  "format_text_response toy_floatops (PyStr (py ''[1, 2]''))
     = [TextContent [91, 10, 32, 32, 49, 44, 10, 32, 32, 50, 10, 93]]
   \<and> json_loads toy_floatops [91, 10, 32, 32, 49, 44, 10, 32, 32, 50, 10, 93]
       = Some (JArr [JInt 1, JInt 2])
   \<and> format_text_response toy_floatops (PyStr (py ''pong'')) = [TextContent (py ''pong'')]"
proof -
  have a: "json_loads toy_floatops (py ''[1, 2]'') = Some (JArr [JInt 1, JInt 2])"
    by (simp add: json_loads_def py_def skip_ws_def is_ws_def match_number_def match_int_def
          match_frac_def match_exp_def is_digit_def digits_val_def scan_once.simps
          parse_array.simps)
  have b: "json_dumps toy_floatops (JArr [JInt 1, JInt 2])
             = [91, 10, 32, 32, 49, 44, 10, 32, 32, 50, 10, 93]"
    by (simp add: json_dumps_def newline_indent_def str_int_def str_nat.simps numeral_2_eq_2)
  have c: "json_loads toy_floatops (py ''pong'') = None"
    by (simp add: json_loads_def py_def skip_ws_def is_ws_def match_number_def match_int_def
          scan_once.simps)
  show ?thesis
    using format_text_response_round_trip
            [of toy_floatops "py ''[1, 2]''" "JArr [JInt 1, JInt 2]"]
          format_text_response_round_trip [of toy_floatops "py ''pong''" JNull]
          toy_floatops_ok a b c
    by simp
qed

end
